theory Spec2Isabelle
  imports Complex_Main "HOL-Library.Multiset" "HOL-Library.Sublist" "HOL-Library.List_Lexorder" "HOL-Library.Char_ord"
begin

section \<open>ECMAScript time values\<close>

text \<open>
  A JavaScript \<^verbatim>\<open>Date\<close> wraps a time value: the number of milliseconds since
  1970-01-01T00:00:00Z. The pages only ever build dates from order timestamps, from the
  current instant and from the value of a date input, so a time value is an \<^typ>\<open>int\<close>.
  The calendar fields follow the abstract operations of ECMA-262 (Day, TimeWithinDay,
  DayFromYear, YearFromTime, MonthFromTime, DateFromTime, MakeDay, MakeDate). The local
  time zone is a fixed offset \<open>tza\<close> in milliseconds (LocalTime t = t + tza); daylight
  saving changes are outside the model.
\<close>

definition msPerDay :: int where
  "msPerDay = 86400000"

definition Day :: "int \<Rightarrow> int" where
  "Day t = t div msPerDay"

definition TimeWithinDay :: "int \<Rightarrow> int" where
  "TimeWithinDay t = t mod msPerDay"

definition DayFromYear :: "int \<Rightarrow> int" where
  "DayFromYear y = 365 * (y - 1970) + (y - 1969) div 4 - (y - 1901) div 100 + (y - 1601) div 400"

definition InLeapYear :: "int \<Rightarrow> bool" where
  "InLeapYear y = (y mod 4 = 0 \<and> (y mod 100 \<noteq> 0 \<or> y mod 400 = 0))"

text \<open>The largest year whose first day is not after day \<open>d\<close>: an estimate from the mean
  length of a Gregorian year, corrected by at most one year either way.\<close>

definition YearFromDay :: "int \<Rightarrow> int" where
  "YearFromDay d =
     (let y = 1970 + (d * 400) div 146097
      in if DayFromYear (y + 1) \<le> d then y + 1
         else if DayFromYear y \<le> d then y
         else y - 1)"

definition DayWithinYear :: "int \<Rightarrow> int" where
  "DayWithinYear d = d - DayFromYear (YearFromDay d)"

text \<open>Day-in-year on which month \<open>m\<close> (0 = January) starts; \<open>m = 12\<close> is the year's length.\<close>

definition monthStart :: "bool \<Rightarrow> int \<Rightarrow> int" where
  "monthStart leap m =
     (let l = (if leap then 1 else 0)
      in if m = 0 then 0
         else if m = 1 then 31
         else if m = 2 then 59 + l
         else if m = 3 then 90 + l
         else if m = 4 then 120 + l
         else if m = 5 then 151 + l
         else if m = 6 then 181 + l
         else if m = 7 then 212 + l
         else if m = 8 then 243 + l
         else if m = 9 then 273 + l
         else if m = 10 then 304 + l
         else if m = 11 then 334 + l
         else 365 + l)"

definition MonthFromDay :: "int \<Rightarrow> int" where
  "MonthFromDay d =
     (let leap = InLeapYear (YearFromDay d); dwy = DayWithinYear d
      in if dwy < monthStart leap 1 then 0
         else if dwy < monthStart leap 2 then 1
         else if dwy < monthStart leap 3 then 2
         else if dwy < monthStart leap 4 then 3
         else if dwy < monthStart leap 5 then 4
         else if dwy < monthStart leap 6 then 5
         else if dwy < monthStart leap 7 then 6
         else if dwy < monthStart leap 8 then 7
         else if dwy < monthStart leap 9 then 8
         else if dwy < monthStart leap 10 then 9
         else if dwy < monthStart leap 11 then 10
         else 11)"

definition DateFromDay :: "int \<Rightarrow> int" where
  "DateFromDay d =
     DayWithinYear d - monthStart (InLeapYear (YearFromDay d)) (MonthFromDay d) + 1"

definition WeekDay :: "int \<Rightarrow> int" where
  "WeekDay d = (d + 4) mod 7"

definition MakeDay :: "int \<Rightarrow> int \<Rightarrow> int \<Rightarrow> int" where
  "MakeDay year month dt =
     (let ym = year + month div 12; mn = month mod 12
      in DayFromYear ym + monthStart (InLeapYear ym) mn + dt - 1)"

definition MakeTime :: "int \<Rightarrow> int \<Rightarrow> int \<Rightarrow> int \<Rightarrow> int" where
  "MakeTime h m s ms = h * 3600000 + m * 60000 + s * 1000 + ms"

definition MakeDate :: "int \<Rightarrow> int \<Rightarrow> int" where
  "MakeDate day time = day * msPerDay + time"

subsection \<open>The \<^verbatim>\<open>Date\<close> methods the pages call\<close>

definition getFullYear :: "int \<Rightarrow> int \<Rightarrow> int" where
  "getFullYear tza t = YearFromDay (Day (t + tza))"

definition getMonth :: "int \<Rightarrow> int \<Rightarrow> int" where
  "getMonth tza t = MonthFromDay (Day (t + tza))"

definition getDate :: "int \<Rightarrow> int \<Rightarrow> int" where
  "getDate tza t = DateFromDay (Day (t + tza))"

definition setDate :: "int \<Rightarrow> int \<Rightarrow> int \<Rightarrow> int" where
  "setDate tza t dt =
     (let lt = t + tza
      in MakeDate (MakeDay (YearFromDay (Day lt)) (MonthFromDay (Day lt)) dt) (TimeWithinDay lt) - tza)"

definition setMonth :: "int \<Rightarrow> int \<Rightarrow> int \<Rightarrow> int" where
  "setMonth tza t month =
     (let lt = t + tza
      in MakeDate (MakeDay (YearFromDay (Day lt)) month (DateFromDay (Day lt))) (TimeWithinDay lt) - tza)"

definition setFullYear :: "int \<Rightarrow> int \<Rightarrow> int \<Rightarrow> int" where
  "setFullYear tza t year =
     (let lt = t + tza
      in MakeDate (MakeDay year (MonthFromDay (Day lt)) (DateFromDay (Day lt))) (TimeWithinDay lt) - tza)"

definition setHours :: "int \<Rightarrow> int \<Rightarrow> int \<Rightarrow> int \<Rightarrow> int \<Rightarrow> int \<Rightarrow> int" where
  "setHours tza t h m s ms = MakeDate (Day (t + tza)) (MakeTime h m s ms) - tza"

text \<open>
  The value of an \<^verbatim>\<open><input type="date">\<close>: the empty string, or a date-only ISO
  string \<^verbatim>\<open>YYYY-MM-DD\<close> (month from 1). \<^verbatim>\<open>new Date\<close> of a date-only string is
  midnight UTC of that day. The empty string is the only falsy value.
\<close>

datatype date_field = Empty | ISODate int int int

definition newDateISO :: "int \<Rightarrow> int \<Rightarrow> int \<Rightarrow> int" where
  "newDateISO y m d = MakeDate (MakeDay y (m - 1) d) 0"

section \<open>Sorting with a comparator\<close>

text \<open>
  \<^verbatim>\<open>Array.prototype.sort(cmp)\<close> is a stable sort: for a consistent comparator its
  result is the one permutation that is ordered by \<open>cmp\<close> and keeps elements that compare
  equal in their input order. The model is the stable insertion sort.
\<close>

fun insort_cmp :: "('a \<Rightarrow> 'a \<Rightarrow> int) \<Rightarrow> 'a \<Rightarrow> 'a list \<Rightarrow> 'a list" where
  "insort_cmp c x [] = [x]"
| "insort_cmp c x (y # ys) = (if c x y \<le> 0 then x # y # ys else y # insort_cmp c x ys)"

definition js_sort :: "('a \<Rightarrow> 'a \<Rightarrow> int) \<Rightarrow> 'a list \<Rightarrow> 'a list" where
  "js_sort c xs = foldr (insort_cmp c) xs []"

section \<open>Orders page\<close>

record Order =
  oid :: string
  date :: int
  amount :: real
  status :: string

definition statusOptions :: "string list" where
  "statusOptions = [''Order Placed'', ''Packing'', ''Shipped'', ''Out for delivery'', ''Delivered'']"

text \<open>Lines 66-78 of \<^verbatim>\<open>applyFilters\<close>: the date filter, active only when both inputs are set.\<close>

definition applyDateFilter :: "int \<Rightarrow> date_field \<Rightarrow> date_field \<Rightarrow> Order list \<Rightarrow> Order list" where
  "applyDateFilter tza startDate endDate filteredOrders =
     (case (startDate, endDate) of
        (ISODate ys ms ds, ISODate ye me de) \<Rightarrow>
          (let start = setHours tza (newDateISO ys ms ds) 0 0 0 0;
               end' = setHours tza (newDateISO ye me de) 23 59 59 999
           in filter (\<lambda>order. start \<le> date order \<and> date order \<le> end') filteredOrders)
      | _ \<Rightarrow> filteredOrders)"

text \<open>Lines 80-83: the status filter, active for a non-empty status.\<close>

definition applyStatusFilter :: "string \<Rightarrow> Order list \<Rightarrow> Order list" where
  "applyStatusFilter statusFilter filteredOrders =
     (if statusFilter \<noteq> [] then filter (\<lambda>order. status order = statusFilter) filteredOrders
      else filteredOrders)"

definition dateComparator :: "string \<Rightarrow> Order \<Rightarrow> Order \<Rightarrow> int" where
  "dateComparator sortOrder a b = (if sortOrder = ''asc'' then date a - date b else date b - date a)"

text \<open>\<^verbatim>\<open>applyFilters\<close> works on a copy of \<^verbatim>\<open>allOrders\<close> and publishes the result as
  \<^verbatim>\<open>orders\<close>; the function returns that published list.\<close>

definition applyFilters :: "int \<Rightarrow> Order list \<Rightarrow> date_field \<Rightarrow> date_field \<Rightarrow> string \<Rightarrow> string \<Rightarrow> Order list" where
  "applyFilters tza allOrders startDate endDate statusFilter sortOrder =
     js_sort (dateComparator sortOrder)
       (applyStatusFilter statusFilter (applyDateFilter tza startDate endDate allOrders))"

definition toggleSortOrder :: "string \<Rightarrow> Order list \<Rightarrow> string \<times> Order list" where
  "toggleSortOrder sortOrder prevOrders =
     (let newSortOrder = (if sortOrder = ''desc'' then ''asc'' else ''desc'')
      in (newSortOrder, js_sort (dateComparator newSortOrder) prevOrders))"




section \<open>Reviews page\<close>

text \<open>Strings are byte strings; \<^verbatim>\<open>toLowerCase\<close> is modelled on the ASCII letters.\<close>

definition lowerChar :: "char \<Rightarrow> char" where
  "lowerChar c =
     (case map_of (zip ''ABCDEFGHIJKLMNOPQRSTUVWXYZ'' ''abcdefghijklmnopqrstuvwxyz'') c of
        Some l \<Rightarrow> l
      | None \<Rightarrow> c)"

definition toLowerCase :: "string \<Rightarrow> string" where
  "toLowerCase s = map lowerChar s"

text \<open>\<^verbatim>\<open>s.includes(t)\<close>: \<open>t\<close> occurs in \<open>s\<close> as a contiguous substring.\<close>

fun includes_str :: "string \<Rightarrow> string \<Rightarrow> bool" where
  "includes_str [] t = (t = [])"
| "includes_str (c # s) t = (prefix t (c # s) \<or> includes_str s t)"

text \<open>
  A review as the API returns it: \<^verbatim>\<open>user\<close> and \<^verbatim>\<open>product\<close> are populated references
  that may be absent, and so may their \<^verbatim>\<open>name\<close>; \<open>None\<close> is \<^verbatim>\<open>undefined\<close> or
  \<^verbatim>\<open>null\<close>. The comment is read without a guard, so its absence is modelled too.
\<close>

record Named =
  name :: "string option"

record Review =
  rid :: string
  rdate :: int
  rating :: int
  comment :: "string option"
  user :: "Named option"
  product :: "Named option"

datatype error = TypeError

text \<open>\<^verbatim>\<open>x?.name\<close>\<close>

definition optName :: "Named option \<Rightarrow> string option" where
  "optName x = (case x of None \<Rightarrow> None | Some n \<Rightarrow> name n)"

text \<open>\<^verbatim>\<open>x?.name && x.name.toLowerCase().includes(searchLower)\<close>, as a truth value: a missing
  or empty name is falsy and the right operand is not evaluated.\<close>

definition nameMatches :: "Named option \<Rightarrow> string \<Rightarrow> bool" where
  "nameMatches x searchLower =
     (case optName x of
        None \<Rightarrow> False
      | Some n \<Rightarrow> n \<noteq> [] \<and> includes_str (toLowerCase n) searchLower)"

text \<open>The callback of \<^verbatim>\<open>reviews.filter\<close> (lines 89-96). Calling \<^verbatim>\<open>toLowerCase\<close> on a
  missing comment throws a TypeError; the disjunction reaches it only when neither name
  matched.\<close>

definition reviewMatches :: "string \<Rightarrow> Review \<Rightarrow> error + bool" where
  "reviewMatches searchTerm review =
     (let searchLower = toLowerCase searchTerm
      in if nameMatches (user review) searchLower then Inr True
         else if nameMatches (product review) searchLower then Inr True
         else (case comment review of
                 None \<Rightarrow> Inl TypeError
               | Some c \<Rightarrow> Inr (includes_str (toLowerCase c) searchLower)))"

text \<open>\<^verbatim>\<open>Array.prototype.filter\<close> with a callback that may throw: the first exception
  ends the call.\<close>

fun filterE :: "('a \<Rightarrow> error + bool) \<Rightarrow> 'a list \<Rightarrow> error + 'a list" where
  "filterE p [] = Inr []"
| "filterE p (x # xs) =
     (case p x of
        Inl e \<Rightarrow> Inl e
      | Inr b \<Rightarrow> (case filterE p xs of
                   Inl e \<Rightarrow> Inl e
                 | Inr ys \<Rightarrow> Inr (if b then x # ys else ys)))"

definition filteredReviews :: "string \<Rightarrow> Review list \<Rightarrow> error + Review list" where
  "filteredReviews searchTerm reviews = filterE (reviewMatches searchTerm) reviews"

text \<open>\<^verbatim>\<open>(x?.name || '')\<close>\<close>

definition nameOrEmpty :: "Named option \<Rightarrow> string" where
  "nameOrEmpty x = (case optName x of None \<Rightarrow> [] | Some n \<Rightarrow> n)"

text \<open>The comparator of \<^verbatim>\<open>sortedReviews\<close> (lines 98-115). \<^verbatim>\<open>String.prototype.localeCompare\<close>
  belongs to the platform and is the parameter \<open>localeCompare\<close>.\<close>

definition reviewComparator ::
  "(string \<Rightarrow> string \<Rightarrow> int) \<Rightarrow> string \<Rightarrow> string \<Rightarrow> Review \<Rightarrow> Review \<Rightarrow> int" where
  "reviewComparator localeCompare sortBy sortOrder a b =
     (if sortBy = ''date'' then
        (if sortOrder = ''asc'' then rdate a - rdate b else rdate b - rdate a)
      else if sortBy = ''rating'' then
        (if sortOrder = ''asc'' then rating a - rating b else rating b - rating a)
      else if sortBy = ''productName'' then
        (let nameA = toLowerCase (nameOrEmpty (product a));
             nameB = toLowerCase (nameOrEmpty (product b))
         in if sortOrder = ''asc'' then localeCompare nameA nameB else localeCompare nameB nameA)
      else if sortBy = ''userName'' then
        (let nameA = toLowerCase (nameOrEmpty (user a));
             nameB = toLowerCase (nameOrEmpty (user b))
         in if sortOrder = ''asc'' then localeCompare nameA nameB else localeCompare nameB nameA)
      else 0)"

definition sortedReviews ::
  "(string \<Rightarrow> string \<Rightarrow> int) \<Rightarrow> string \<Rightarrow> string \<Rightarrow> Review list \<Rightarrow> Review list" where
  "sortedReviews localeCompare sortBy sortOrder filtered =
     js_sort (reviewComparator localeCompare sortBy sortOrder) filtered"

text \<open>A comparator is consistent (ECMA-262) when it orders its arguments as a total
  preorder: swapping the arguments flips the sign, and the order is transitive.\<close>

definition consistent :: "('a \<Rightarrow> 'a \<Rightarrow> int) \<Rightarrow> bool" where
  "consistent c =
     ((\<forall>a b. (c a b < 0) = (0 < c b a)) \<and>
      (\<forall>a b d. c a b \<le> 0 \<and> c b d \<le> 0 \<longrightarrow> c a d \<le> 0))"

text \<open>A comparison by code units, used where a concrete \<open>localeCompare\<close> is needed.\<close>

definition codeUnitCompare :: "string \<Rightarrow> string \<Rightarrow> int" where
  "codeUnitCompare a b = (if a < b then - 1 else if a = b then 0 else 1)"


section \<open>Dashboard page\<close>

subsection \<open>Plain objects used as dictionaries\<close>

text \<open>
  \<^verbatim>\<open>ordersByDate\<close>, \<^verbatim>\<open>incomeByDate\<close> and \<^verbatim>\<open>countByStatus\<close> are plain objects: a list of
  own properties in creation order. \<^verbatim>\<open>Object.keys\<close> and \<^verbatim>\<open>Object.values\<close> list the
  properties whose key is an array index (a canonical decimal below \<open>2^32 - 1\<close>) first,
  in ascending numeric order, and then the other properties in creation order.
  Properties inherited from \<^verbatim>\<open>Object.prototype\<close> are outside the model: the keys used
  are date labels and order statuses.
\<close>

type_synonym 'v js_object = "(string \<times> 'v) list"

definition obj_get :: "'v js_object \<Rightarrow> string \<Rightarrow> 'v option" where
  "obj_get obj k = map_of obj k"

fun obj_set :: "'v js_object \<Rightarrow> string \<Rightarrow> 'v \<Rightarrow> 'v js_object" where
  "obj_set [] k v = [(k, v)]"
| "obj_set (p # ps) k v = (if fst p = k then (k, v) # ps else p # obj_set ps k v)"

definition isDigit :: "char \<Rightarrow> bool" where
  "isDigit c = (CHR ''0'' \<le> c \<and> c \<le> CHR ''9'')"

definition indexValue :: "string \<Rightarrow> nat" where
  "indexValue k = foldl (\<lambda>n c. 10 * n + (of_char c - 48)) 0 k"

definition isArrayIndex :: "string \<Rightarrow> bool" where
  "isArrayIndex k =
     (k \<noteq> [] \<and> list_all isDigit k \<and> (k = ''0'' \<or> hd k \<noteq> CHR ''0'') \<and> indexValue k < 2 ^ 32 - 1)"

definition ownProperties :: "'v js_object \<Rightarrow> 'v js_object" where
  "ownProperties obj =
     sort_key (\<lambda>p. indexValue (fst p)) (filter (\<lambda>p. isArrayIndex (fst p)) obj)
       @ filter (\<lambda>p. \<not> isArrayIndex (fst p)) obj"

definition Object_keys :: "'v js_object \<Rightarrow> string list" where
  "Object_keys obj = map fst (ownProperties obj)"

definition Object_values :: "'v js_object \<Rightarrow> 'v list" where
  "Object_values obj = map snd (ownProperties obj)"

subsection \<open>Component state\<close>

text \<open>
  \<^verbatim>\<open>avgOrderValue\<close> is either the number \<open>0\<close> or the string that \<^verbatim>\<open>toFixed(2)\<close> returns;
  \<open>FixedString n\<close> is the decimal string of \<open>n / 100\<close> with two fraction digits, where \<open>n\<close>
  is the integer nearest to a hundred times the number, the larger one on a tie.
\<close>

datatype js_value = Number real | FixedString int

definition toFixed2 :: "real \<Rightarrow> js_value" where
  "toFixed2 x = FixedString \<lfloor>x * 100 + 1 / 2\<rfloor>"

record Stats =
  totalOrders :: nat
  totalIncome :: real
  avgOrderValue :: js_value
  pendingOrders :: nat
  deliveredOrders :: nat

record ChartData =
  labels :: "string list"
  orderCounts :: "nat list"
  incomeCounts :: "real list"

record StatusData =
  statusLabels :: "string list"
  statusCounts :: "nat list"

text \<open>
  Arrays are objects with identity: \<^verbatim>\<open>filterOrdersByDateRange\<close> may return the very
  array it was given, and \<^verbatim>\<open>prepareChartData\<close> sorts its argument in place. The state
  therefore holds a store of arrays (\<open>heap\<close>, from reference to content, with \<open>nextRef\<close>
  the next unused reference) and \<open>orders\<close> is a reference into it: the Record Store.
\<close>

record Dashboard =
  heap :: "nat \<Rightarrow> Order list"
  nextRef :: nat
  orders :: nat
  dateRange :: string
  startDate :: date_field
  endDate :: date_field
  stats :: Stats
  chartData :: "ChartData option"
  statusData :: "StatusData option"

definition initialDashboard :: Dashboard where
  "initialDashboard =
     \<lparr>heap = (\<lambda>r. []), nextRef = 1, orders = 0, dateRange = ''month'',
      startDate = Empty, endDate = Empty,
      stats = \<lparr>totalOrders = 0, totalIncome = 0, avgOrderValue = Number 0,
               pendingOrders = 0, deliveredOrders = 0\<rparr>,
      chartData = None, statusData = None\<rparr>"

definition newArray :: "Order list \<Rightarrow> Dashboard \<Rightarrow> nat \<times> Dashboard" where
  "newArray xs s = (nextRef s, s\<lparr>heap := (heap s)(nextRef s := xs), nextRef := Suc (nextRef s)\<rparr>)"

text \<open>Lines 149-152: \<^verbatim>\<open>ordersData.filter(...)\<close> builds a new array.\<close>

definition filterBetween :: "int \<Rightarrow> int \<Rightarrow> Dashboard \<Rightarrow> nat \<Rightarrow> nat \<times> Dashboard" where
  "filterBetween start end' s ordersData =
     newArray (filter (\<lambda>order. start \<le> date order \<and> date order \<le> end') (heap s ordersData)) s"

text \<open>\<open>now\<close> is the time value of \<^verbatim>\<open>new Date()\<close>. In the two inactive cases the function
  returns its argument: the same reference.\<close>

definition filterOrdersByDateRange :: "int \<Rightarrow> int \<Rightarrow> Dashboard \<Rightarrow> nat \<Rightarrow> nat \<times> Dashboard" where
  "filterOrdersByDateRange now tza s ordersData =
     (if dateRange s = ''week'' then
        filterBetween (setDate tza now (getDate tza now - 7)) now s ordersData
      else if dateRange s = ''month'' then
        filterBetween (setMonth tza now (getMonth tza now - 1)) now s ordersData
      else if dateRange s = ''year'' then
        filterBetween (setFullYear tza now (getFullYear tza now - 1)) now s ordersData
      else if dateRange s = ''custom'' then
        (case (startDate s, endDate s) of
           (ISODate ys ms ds, ISODate ye me de) \<Rightarrow>
             filterBetween (setHours tza (newDateISO ys ms ds) 0 0 0 0)
               (setHours tza (newDateISO ye me de) 23 59 59 999) s ordersData
         | _ \<Rightarrow> (ordersData, s))
      else (ordersData, s))"

subsection \<open>Chart preparation\<close>

text \<open>The three option sets passed to \<^verbatim>\<open>toLocaleDateString('en-US', ...)\<close>. The formatter
  itself belongs to the platform and is the parameter \<open>toLocaleDateString\<close>, from the
  options and a time value to the label.\<close>

datatype date_format = Weekday | MonthDay | MonthYear

definition dateFormat :: "string \<Rightarrow> date_format" where
  "dateFormat rng =
     (if rng = ''week'' then Weekday else if rng = ''month'' then MonthDay else MonthYear)"

text \<open>One round of the \<^verbatim>\<open>forEach\<close> of lines 174-184. When the two counters are read for
  the increment the key is present in both objects: it was created in this round or in
  an earlier one, so the read of a missing property does not arise.\<close>

definition groupOrder ::
  "(int \<Rightarrow> string) \<Rightarrow> nat js_object \<times> real js_object \<Rightarrow> Order \<Rightarrow> nat js_object \<times> real js_object" where
  "groupOrder label acc order =
     (let ordersByDate = fst acc; incomeByDate = snd acc;
          dateStr = label (date order);
          fresh = (case obj_get ordersByDate dateStr of None \<Rightarrow> True | Some n \<Rightarrow> n = 0);
          ordersByDate = (if fresh then obj_set ordersByDate dateStr 0 else ordersByDate);
          incomeByDate = (if fresh then obj_set incomeByDate dateStr 0 else incomeByDate);
          ordersByDate = obj_set ordersByDate dateStr
                           (case obj_get ordersByDate dateStr of None \<Rightarrow> 0 | Some n \<Rightarrow> n + 1);
          incomeByDate = obj_set incomeByDate dateStr
                           (case obj_get incomeByDate dateStr of None \<Rightarrow> 0 | Some x \<Rightarrow> x + amount order)
      in (ordersByDate, incomeByDate))"

definition prepareChartData ::
  "(date_format \<Rightarrow> int \<Rightarrow> string) \<Rightarrow> Dashboard \<Rightarrow> nat \<Rightarrow> Dashboard" where
  "prepareChartData toLocaleDateString s filteredOrders =
     (let s1 = s\<lparr>heap := (heap s)(filteredOrders :=
                   js_sort (\<lambda>a b. date a - date b) (heap s filteredOrders))\<rparr>;
          grouped = foldl (groupOrder (toLocaleDateString (dateFormat (dateRange s)))) ([], [])
                      (heap s1 filteredOrders);
          ordersByDate = fst grouped; incomeByDate = snd grouped
      in s1\<lparr>chartData := Some \<lparr>labels = Object_keys ordersByDate,
                               orderCounts = Object_values ordersByDate,
                               incomeCounts = Object_values incomeByDate\<rparr>\<rparr>)"

text \<open>The distinct elements of a list, in the order of their first occurrence: the order
  in which the chart's buckets are first seen.\<close>

definition firstSeen :: "'a list \<Rightarrow> 'a list" where
  "firstSeen xs = rev (remdups (rev xs))"

subsection \<open>Status counts\<close>

definition countStatus :: "nat js_object \<Rightarrow> Order \<Rightarrow> nat js_object" where
  "countStatus countByStatus order =
     (case obj_get countByStatus (status order) of
        None \<Rightarrow> countByStatus
      | Some n \<Rightarrow> obj_set countByStatus (status order) (n + 1))"

definition prepareStatusData :: "Dashboard \<Rightarrow> nat \<Rightarrow> Dashboard" where
  "prepareStatusData s filteredOrders =
     (let countByStatus = foldl (\<lambda>obj st. obj_set obj st 0) [] statusOptions;
          countByStatus = foldl countStatus countByStatus (heap s filteredOrders)
      in s\<lparr>statusData := Some \<lparr>statusLabels = statusOptions,
                               statusCounts = Object_values countByStatus\<rparr>\<rparr>)"

subsection \<open>Processing\<close>

definition processData ::
  "(date_format \<Rightarrow> int \<Rightarrow> string) \<Rightarrow> int \<Rightarrow> int \<Rightarrow> Dashboard \<Rightarrow> nat \<Rightarrow> Dashboard" where
  "processData toLocaleDateString now tza s ordersData =
     (if length (heap s ordersData) = 0 then s
      else
        (let (filteredOrders, s1) = filterOrdersByDateRange now tza s ordersData;
             fo = heap s1 filteredOrders;
             total = length fo;
             income = foldl (\<lambda>sum order. sum + amount order) 0 fo;
             avg = (if total \<noteq> 0 then toFixed2 (income / real total) else Number 0);
             pending = length (filter (\<lambda>order. status order \<noteq> ''Delivered'') fo);
             delivered = length (filter (\<lambda>order. status order = ''Delivered'') fo);
             s2 = s1\<lparr>stats := \<lparr>totalOrders = total, totalIncome = income, avgOrderValue = avg,
                                pendingOrders = pending, deliveredOrders = delivered\<rparr>\<rparr>;
             s3 = prepareChartData toLocaleDateString s2 filteredOrders
         in prepareStatusData s3 filteredOrders))"

text \<open>The success path of \<^verbatim>\<open>fetchOrders\<close>: the response array becomes the Record Store
  and is handed to \<^verbatim>\<open>processData\<close>.\<close>

definition fetchOrders ::
  "(date_format \<Rightarrow> int \<Rightarrow> string) \<Rightarrow> int \<Rightarrow> int \<Rightarrow> Order list \<Rightarrow> Dashboard \<Rightarrow> Dashboard" where
  "fetchOrders toLocaleDateString now tza response s =
     (let (ordersData, s1) = newArray response s
      in processData toLocaleDateString now tza (s1\<lparr>orders := ordersData\<rparr>) ordersData)"

text \<open>The effect on \<^verbatim>\<open>dateRange\<close> (lines 276-280).\<close>

definition reprocess ::
  "(date_format \<Rightarrow> int \<Rightarrow> string) \<Rightarrow> int \<Rightarrow> int \<Rightarrow> Dashboard \<Rightarrow> Dashboard" where
  "reprocess toLocaleDateString now tza s =
     (if length (heap s (orders s)) \<noteq> 0 then processData toLocaleDateString now tza s (orders s)
      else s)"



subsection \<open>An \<^verbatim>\<open>en-US\<close> formatter\<close>

text \<open>The labels \<^verbatim>\<open>toLocaleDateString('en-US', ...)\<close> gives for the three option sets, for
  years of the common era: \<^verbatim>\<open>Mon\<close>, \<^verbatim>\<open>Jan 15\<close>, \<^verbatim>\<open>Jan 2023\<close>.\<close>

definition weekdayName :: "int \<Rightarrow> string" where
  "weekdayName w = [''Sun'', ''Mon'', ''Tue'', ''Wed'', ''Thu'', ''Fri'', ''Sat''] ! nat (w mod 7)"

definition monthName :: "int \<Rightarrow> string" where
  "monthName m =
     [''Jan'', ''Feb'', ''Mar'', ''Apr'', ''May'', ''Jun'',
      ''Jul'', ''Aug'', ''Sep'', ''Oct'', ''Nov'', ''Dec''] ! nat (m mod 12)"

fun decimal :: "nat \<Rightarrow> string" where
  "decimal n =
     (if n < 10 then [''0123456789'' ! n] else decimal (n div 10) @ [''0123456789'' ! (n mod 10)])"

definition enUS :: "int \<Rightarrow> date_format \<Rightarrow> int \<Rightarrow> string" where
  "enUS tza f t =
     (let d = Day (t + tza)
      in case f of
           Weekday \<Rightarrow> weekdayName (WeekDay d)
         | MonthDay \<Rightarrow> monthName (MonthFromDay d) @ '' '' @ decimal (nat (DateFromDay d))
         | MonthYear \<Rightarrow> monthName (MonthFromDay d) @ '' '' @ decimal (nat (YearFromDay d)))"


section \<open>Sample data\<close>

definition mkOrder :: "string \<Rightarrow> int \<Rightarrow> real \<Rightarrow> string \<Rightarrow> Order" where
  "mkOrder i d a st = \<lparr>oid = i, date = d, amount = a, status = st\<rparr>"

definition mkReview ::
  "string \<Rightarrow> int \<Rightarrow> int \<Rightarrow> string option \<Rightarrow> string option \<Rightarrow> string option \<Rightarrow> Review" where
  "mkReview i d r c u p =
     \<lparr>rid = i, rdate = d, rating = r, comment = c,
      user = Some \<lparr>name = u\<rparr>, product = Some \<lparr>name = p\<rparr>\<rparr>"

text \<open>The dashboard with the range \<open>rng\<close> selected and the orders \<open>xs\<close> in its Record Store.\<close>

definition sampleDashboard :: "string \<Rightarrow> Order list \<Rightarrow> Dashboard" where
  "sampleDashboard rng xs =
     initialDashboard\<lparr>heap := (heap initialDashboard)(0 := xs), dateRange := rng\<rparr>"

section \<open>Properties of the comparator sort\<close>

lemma mset_insort_cmp: "mset (insort_cmp c x ys) = add_mset x (mset ys)"
  by (induction ys) auto

lemma mset_js_sort: "mset (js_sort c xs) = mset xs"
  by (induction xs) (auto simp: js_sort_def mset_insort_cmp)

lemma set_js_sort: "set (js_sort c xs) = set xs"
  using mset_js_sort [of c xs] by (metis set_mset_mset)

lemma length_js_sort: "length (js_sort c xs) = length xs"
  using mset_js_sort [of c xs] by (metis size_mset)

section \<open>Date ranges\<close>

lemma setHours_le:
  assumes "t1 \<le> t2"
  shows "setHours tza t1 0 0 0 0 \<le> setHours tza t2 23 59 59 999"
proof -
  have "Day (t1 + tza) \<le> Day (t2 + tza)"
    using assms by (simp add: Day_def msPerDay_def zdiv_mono1)
  then show ?thesis
    by (simp add: setHours_def MakeDate_def MakeTime_def msPerDay_def)
qed

lemma setHours_start_fields:
  "TimeWithinDay (setHours tza t 0 0 0 0 + tza) = 0 \<and>
   Day (setHours tza t 0 0 0 0 + tza) = Day (t + tza)"
  by (simp add: setHours_def MakeDate_def MakeTime_def TimeWithinDay_def Day_def msPerDay_def)

lemma setHours_end_fields:
  "TimeWithinDay (setHours tza t 23 59 59 999 + tza) = msPerDay - 1 \<and>
   Day (setHours tza t 23 59 59 999 + tza) = Day (t + tza)"
  by (simp add: setHours_def MakeDate_def MakeTime_def TimeWithinDay_def Day_def msPerDay_def)

lemmas calendar_defs =
  newDateISO_def setHours_def setDate_def setMonth_def setFullYear_def
  getDate_def getMonth_def getFullYear_def
  MakeDate_def MakeDay_def MakeTime_def Day_def TimeWithinDay_def
  DateFromDay_def MonthFromDay_def DayWithinYear_def YearFromDay_def DayFromYear_def
  InLeapYear_def monthStart_def msPerDay_def

subsection \<open>Calendar arithmetic\<close>

lemma div_step:
  assumes "(0::int) < k"
  shows "(a + 1) div k - a div k = (if k dvd (a + 1) then 1 else 0)"
proof -
  define q r where "q = a div k" and "r = a mod k"
  have a: "a = k * q + r" and r0: "0 \<le> r" and rk: "r < k"
    using assms by (simp_all add: q_def r_def)
  show ?thesis
  proof (cases "r + 1 = k")
    case True
    then have e: "a + 1 = k * (q + 1)"
      using a by (simp add: algebra_simps)
    have "(a + 1) div k = q + 1"
      unfolding e using assms by simp
    moreover have "k dvd (a + 1)"
      unfolding e by simp
    ultimately show ?thesis
      by (simp add: q_def)
  next
    case False
    then have lt: "r + 1 < k" and ge: "0 \<le> r + 1"
      using r0 rk by simp_all
    have e: "a + 1 = k * q + (r + 1)"
      using a by simp
    have dv: "(a + 1) div k = q"
      using int_div_pos_eq [OF e ge lt] .
    have md: "(a + 1) mod k = r + 1"
      using int_mod_pos_eq [OF e ge lt] .
    have "\<not> k dvd (a + 1)"
      using md r0 by (simp add: dvd_eq_mod_eq_0)
    then show ?thesis
      using dv by (simp add: q_def)
  qed
qed

lemma InLeapYear_dvd: "InLeapYear y = (4 dvd y \<and> (\<not> 100 dvd y \<or> 400 dvd y))"
  by (simp add: InLeapYear_def dvd_eq_mod_eq_0)

lemma div4_step: "(y - 1968) div 4 - (y - 1969) div 4 = (if 4 dvd y then 1 else (0::int))"
proof -
  have "(4::int) dvd (y - 1968) = (4 dvd y)" by (rule dvd_diff_left_iff) simp
  then show ?thesis using div_step [of 4 "y - 1969"] by simp
qed

lemma div100_step: "(y - 1900) div 100 - (y - 1901) div 100 = (if 100 dvd y then 1 else (0::int))"
proof -
  have "(100::int) dvd (y - 1900) = (100 dvd y)" by (rule dvd_diff_left_iff) simp
  then show ?thesis using div_step [of 100 "y - 1901"] by simp
qed

lemma div400_step: "(y - 1600) div 400 - (y - 1601) div 400 = (if 400 dvd y then 1 else (0::int))"
proof -
  have "(400::int) dvd (y - 1600) = (400 dvd y)" by (rule dvd_diff_left_iff) simp
  then show ?thesis using div_step [of 400 "y - 1601"] by simp
qed

lemma DayFromYear_step: "DayFromYear (y + 1) - DayFromYear y = (if InLeapYear y then 366 else 365)"
proof -
  have i1: "100 dvd y" if "400 dvd y"
    using dvd_mult_left [of 100 4 y] that by simp
  have i2: "4 dvd y" if "100 dvd y"
    using dvd_mult_left [of 4 25 y] that by simp
  have "DayFromYear (y + 1) - DayFromYear y =
          365 + ((y - 1968) div 4 - (y - 1969) div 4) - ((y - 1900) div 100 - (y - 1901) div 100)
              + ((y - 1600) div 400 - (y - 1601) div 400)"
    by (simp add: DayFromYear_def)
  then have eq: "DayFromYear (y + 1) - DayFromYear y =
          365 + (if 4 dvd y then 1 else 0) - (if 100 dvd y then 1 else 0)
              + (if 400 dvd y then 1 else 0)"
    by (simp only: div4_step div100_step div400_step)
  consider (a) "400 dvd y" | (b) "100 dvd y" "\<not> 400 dvd y"
    | (c) "4 dvd y" "\<not> 100 dvd y" | (d) "\<not> 4 dvd y"
    by blast
  then show ?thesis
  proof cases
    case a
    then have "100 dvd y" by (rule i1)
    then have "4 dvd y" by (rule i2)
    with a \<open>100 dvd y\<close> show ?thesis
      unfolding eq InLeapYear_dvd by simp
  next
    case b
    then have "4 dvd y" using i2 by blast
    with b show ?thesis
      unfolding eq InLeapYear_dvd by simp
  next
    case c
    then have "\<not> 400 dvd y" using i1 by blast
    with c show ?thesis
      unfolding eq InLeapYear_dvd by simp
  next
    case d
    then have "\<not> 100 dvd y" using i2 by blast
    then have "\<not> 400 dvd y" using i1 by blast
    with d \<open>\<not> 100 dvd y\<close> show ?thesis
      unfolding eq InLeapYear_dvd by simp
  qed
qed


lemma MonthFromDay_range: "0 \<le> MonthFromDay d \<and> MonthFromDay d \<le> 11"
  by (simp add: MonthFromDay_def Let_def)

lemma MakeDay_in_year: "0 \<le> m \<Longrightarrow> m \<le> 11 \<Longrightarrow>
  MakeDay y m dt = DayFromYear y + monthStart (InLeapYear y) m + dt - 1"
  by (simp add: MakeDay_def Let_def)


lemma Day_decompose: "Day t * msPerDay + TimeWithinDay t = t"
  by (simp add: Day_def TimeWithinDay_def)


lemma MakeDate_back:
  "dd = Day (now + tza) - k \<Longrightarrow> MakeDate dd (TimeWithinDay (now + tza)) - tza = now - k * msPerDay"
proof -
  assume dd: "dd = Day (now + tza) - k"
  have "MakeDate dd (TimeWithinDay (now + tza)) - tza =
          (Day (now + tza) * msPerDay + TimeWithinDay (now + tza)) - k * msPerDay - tza"
    by (simp add: MakeDate_def dd algebra_simps)
  also have "\<dots> = now - k * msPerDay"
    by (simp only: Day_decompose)
  finally show ?thesis .
qed


lemma monthStart_diff:
  "1 \<le> m \<Longrightarrow> m \<le> 11 \<Longrightarrow> monthStart l m - monthStart l (m - 1) \<in> {28, 29, 30, 31}"
proof -
  assume "1 \<le> m" "m \<le> 11"
  then have "m \<in> {1, 2, 3, 4, 5, 6, 7, 8, 9, 10, 11}"
    by simp arith
  then show ?thesis
    by (elim insertE emptyE) (simp_all add: monthStart_def)
qed

lemma MakeDay_prev_month:
  "\<exists>k\<in>{28, 29, 30, 31}. MakeDay (YearFromDay d) (MonthFromDay d - 1) (DateFromDay d) = d - k"
proof (cases "MonthFromDay d = 0")
  case True
  have "DayFromYear (YearFromDay d) - DayFromYear (YearFromDay d - 1)
          = (if InLeapYear (YearFromDay d - 1) then 366 else 365)"
    using DayFromYear_step [of "YearFromDay d - 1"] by simp
  then have "MakeDay (YearFromDay d) (MonthFromDay d - 1) (DateFromDay d) = d - 31"
    by (cases "InLeapYear (YearFromDay d - 1)")
       (simp_all add: True MakeDay_def DateFromDay_def DayWithinYear_def monthStart_def Let_def)
  then show ?thesis by simp
next
  case False
  then have m: "1 \<le> MonthFromDay d" "MonthFromDay d \<le> 11"
    using MonthFromDay_range [of d] by simp_all
  define k where "k = monthStart (InLeapYear (YearFromDay d)) (MonthFromDay d)
                      - monthStart (InLeapYear (YearFromDay d)) (MonthFromDay d - 1)"
  have kin: "k \<in> {28, 29, 30, 31}"
    unfolding k_def using m by (rule monthStart_diff)
  have "MakeDay (YearFromDay d) (MonthFromDay d - 1) (DateFromDay d)
          = DayFromYear (YearFromDay d) + monthStart (InLeapYear (YearFromDay d)) (MonthFromDay d - 1)
              + DateFromDay d - 1"
    using m by (intro MakeDay_in_year) simp_all
  also have "\<dots> = d - k"
    unfolding k_def DateFromDay_def DayWithinYear_def by simp
  finally show ?thesis
    using kin by (intro bexI [of _ k])
qed

lemma setMonth_back:
  "\<exists>k\<in>{28, 29, 30, 31}. setMonth tza now (getMonth tza now - 1) = now - k * msPerDay"
proof -
  obtain k where k: "k \<in> {28, 29, 30, 31}"
    and e: "MakeDay (YearFromDay (Day (now + tza))) (MonthFromDay (Day (now + tza)) - 1)
              (DateFromDay (Day (now + tza))) = Day (now + tza) - k"
    using MakeDay_prev_month [of "Day (now + tza)"] by blast
  have "setMonth tza now (getMonth tza now - 1) = now - k * msPerDay"
    unfolding setMonth_def getMonth_def Let_def using e by (rule MakeDate_back)
  then show ?thesis using k by blast
qed






subsection \<open>The filters\<close>

text \<open>
  C10. On the orders page the active date filter keeps exactly the orders between the
  local midnight that starts the start day and the last millisecond (23:59:59.999) of
  the end day. For a start day that is not after the end day, an order dated exactly at
  that last millisecond is kept and an order dated one millisecond later is dropped;
  likewise an order dated exactly at the start instant is kept and one a millisecond
  earlier is dropped.
\<close>

theorem date_range_inclusive:
  assumes "newDateISO ys ms ds \<le> newDateISO ye me de"
  shows "let start = setHours tza (newDateISO ys ms ds) 0 0 0 0;
             end' = setHours tza (newDateISO ye me de) 23 59 59 999;
             kept = applyDateFilter tza (ISODate ys ms ds) (ISODate ye me de) allOrders
         in TimeWithinDay (start + tza) = 0 \<and>
            Day (start + tza) = Day (newDateISO ys ms ds + tza) \<and>
            TimeWithinDay (end' + tza) = msPerDay - 1 \<and>
            Day (end' + tza) = Day (newDateISO ye me de + tza) \<and>
            (\<forall>order \<in> set allOrders.
               (date order = end' \<longrightarrow> order \<in> set kept) \<and>
               (date order = end' + 1 \<longrightarrow> order \<notin> set kept) \<and>
               (date order = start \<longrightarrow> order \<in> set kept) \<and>
               (date order = start - 1 \<longrightarrow> order \<notin> set kept))"
  using setHours_le [OF assms, of tza] setHours_start_fields setHours_end_fields
  by (auto simp: Let_def applyDateFilter_def)

theorem date_range_inclusive_witness:
  "newDateISO 2024 3 4 \<le> newDateISO 2024 3 10 \<and>
   setHours 0 (newDateISO 2024 3 10) 23 59 59 999 = 1710115199999 \<and>
   mkOrder ''a'' 1710115199999 100 ''Delivered''
     \<in> set (applyDateFilter 0 (ISODate 2024 3 4) (ISODate 2024 3 10)
              [mkOrder ''a'' 1710115199999 100 ''Delivered'',
               mkOrder ''b'' 1710115200000 50 ''Packing'']) \<and>
   mkOrder ''b'' 1710115200000 50 ''Packing''
     \<notin> set (applyDateFilter 0 (ISODate 2024 3 4) (ISODate 2024 3 10)
              [mkOrder ''a'' 1710115199999 100 ''Delivered'',
               mkOrder ''b'' 1710115200000 50 ''Packing''])"
proof -
  have h: "newDateISO 2024 3 4 \<le> newDateISO 2024 3 10"
    by (simp add: calendar_defs)
  have e: "setHours 0 (newDateISO 2024 3 10) 23 59 59 999 = 1710115199999"
    by (simp add: calendar_defs)
  from date_range_inclusive [OF h, of 0
         "[mkOrder ''a'' 1710115199999 100 ''Delivered'', mkOrder ''b'' 1710115200000 50 ''Packing'']"]
  show ?thesis
    using h e by (simp add: Let_def mkOrder_def)
qed

text \<open>
  C9. The date axis is active only when both bounds are set. On the orders page, when
  the start or the end input is empty the date step returns the collection unchanged,
  so the published list is the status-filtered collection, sorted. On the dashboard,
  with the custom range selected and either bound unset, the date-range filter returns
  the collection it was given. No error is involved in either case.
\<close>

theorem date_axis_needs_both_bounds:
  "(sd = Empty \<or> ed = Empty \<longrightarrow>
      applyDateFilter tza sd ed xs = xs \<and>
      applyFilters tza xs sd ed sf so = js_sort (dateComparator so) (applyStatusFilter sf xs)) \<and>
   (dateRange s = ''custom'' \<and> (startDate s = Empty \<or> endDate s = Empty) \<longrightarrow>
      filterOrdersByDateRange now tza s r = (r, s))"
  by (auto simp: applyDateFilter_def applyFilters_def filterOrdersByDateRange_def
           split: date_field.splits)

theorem date_axis_needs_both_bounds_witness:
  "applyDateFilter 0 (ISODate 2024 3 4) Empty
     [mkOrder ''a'' 0 100 ''Delivered'', mkOrder ''b'' 1710115200000 50 ''Packing'']
   = [mkOrder ''a'' 0 100 ''Delivered'', mkOrder ''b'' 1710115200000 50 ''Packing''] \<and>
   filterOrdersByDateRange 1710115200000 0
     (initialDashboard\<lparr>dateRange := ''custom'', endDate := ISODate 2024 3 10\<rparr>) 0
   = (0, initialDashboard\<lparr>dateRange := ''custom'', endDate := ISODate 2024 3 10\<rparr>)"
  using date_axis_needs_both_bounds [of "ISODate 2024 3 4" Empty 0
          "[mkOrder ''a'' 0 100 ''Delivered'', mkOrder ''b'' 1710115200000 50 ''Packing'']"
          "[]" "''desc''"
          "initialDashboard\<lparr>dateRange := ''custom'', endDate := ISODate 2024 3 10\<rparr>"
          1710115200000 0]
  by (simp add: initialDashboard_def)

subsection \<open>Relative ranges of the dashboard\<close>


lemma filterBetween_frame:
  "filterBetween a b s r = (r', s') \<Longrightarrow> q < nextRef s \<Longrightarrow>
     heap s' q = heap s q \<and> r' = nextRef s \<and> nextRef s' = Suc (nextRef s) \<and> orders s' = orders s"
  by (auto simp: filterBetween_def newArray_def)


lemma month_start_example:
  "setMonth 0 1710460800000 (getMonth 0 1710460800000 - 1) = 1707955200000"
  by code_simp





text \<open>For \<open>month\<close> the start is one calendar month back: on 2024-03-15 that is 29 days,
  and an order dated 30 days before now is dropped.\<close>

lemma month_range_example:
  "heap (snd (filterOrdersByDateRange 1710460800000 0
                (sampleDashboard ''month'' [mkOrder ''a'' 1707868800000 10 ''Packing'']) 0))
        (fst (filterOrdersByDateRange 1710460800000 0
                (sampleDashboard ''month'' [mkOrder ''a'' 1707868800000 10 ''Packing'']) 0))
     = [] \<and>
   1710460800000 - 30 * msPerDay \<le> date (mkOrder ''a'' 1707868800000 10 ''Packing'') \<and>
   date (mkOrder ''a'' 1707868800000 10 ''Packing'') \<le> 1710460800000"
  by (simp add: filterOrdersByDateRange_def sampleDashboard_def initialDashboard_def
        filterBetween_def newArray_def month_start_example mkOrder_def msPerDay_def)

section \<open>Dashboard processing\<close>

text \<open>
  C5. When the array handed to \<^verbatim>\<open>processData\<close> is empty the function returns at once:
  the whole component state, and with it the published stats, chart data and status
  data, is what it was before.
\<close>

theorem processData_empty_unchanged:
  "heap s ordersData = [] \<Longrightarrow> processData f now tza s ordersData = s"
  by (simp add: processData_def)

theorem processData_empty_unchanged_witness:
  "heap initialDashboard 0 = [] \<and>
   processData (enUS 0) 1710115200000 0 initialDashboard 0 = initialDashboard \<and>
   stats initialDashboard =
     \<lparr>totalOrders = 0, totalIncome = 0, avgOrderValue = Number 0,
      pendingOrders = 0, deliveredOrders = 0\<rparr> \<and>
   chartData initialDashboard = None \<and> statusData initialDashboard = None"
proof -
  have h: "heap initialDashboard 0 = []"
    by (simp add: initialDashboard_def)
  from processData_empty_unchanged [OF h] h show ?thesis
    by (simp add: initialDashboard_def)
qed

subsection \<open>The Record Store and the arrays derived from it\<close>

lemma prepareStatusData_frame:
  "heap (prepareStatusData s r) = heap s \<and> orders (prepareStatusData s r) = orders s \<and>
   stats (prepareStatusData s r) = stats s \<and> chartData (prepareStatusData s r) = chartData s"
  by (simp add: prepareStatusData_def Let_def)

lemma prepareChartData_frame:
  "heap (prepareChartData f s r) = (heap s)(r := js_sort (\<lambda>a b. date a - date b) (heap s r)) \<and>
   orders (prepareChartData f s r) = orders s \<and>
   stats (prepareChartData f s r) = stats s \<and>
   dateRange (prepareChartData f s r) = dateRange s"
  by (simp add: prepareChartData_def Let_def)

lemma processData_heap:
  assumes "heap s r \<noteq> []" and "filterOrdersByDateRange now tza s r = (r', s1)"
  shows "heap (processData f now tza s r) = (heap s1)(r' := js_sort (\<lambda>a b. date a - date b) (heap s1 r'))"
  using assms by (simp add: processData_def Let_def prepareStatusData_frame prepareChartData_frame)

lemma filterOrdersByDateRange_inactive:
  assumes "dateRange s \<notin> {''week'', ''month'', ''year''}"
    and "dateRange s = ''custom'' \<longrightarrow> startDate s = Empty \<or> endDate s = Empty"
  shows "filterOrdersByDateRange now tza s r = (r, s)"
  using assms by (auto simp: filterOrdersByDateRange_def split: date_field.splits)

lemma processData_inactive_sorts_store:
  assumes "heap s r \<noteq> []"
    and "dateRange s \<notin> {''week'', ''month'', ''year''}"
    and "dateRange s = ''custom'' \<longrightarrow> startDate s = Empty \<or> endDate s = Empty"
  shows "heap (processData f now tza s r) r = js_sort (\<lambda>a b. date a - date b) (heap s r)"
  using processData_heap [OF assms(1) filterOrdersByDateRange_inactive [OF assms(2,3)]]
  by simp

lemma filterOrdersByDateRange_active:
  assumes "dateRange s \<in> {''week'', ''month'', ''year''}"
  shows "\<exists>a b. filterOrdersByDateRange now tza s r = filterBetween a b s r"
  using assms by (auto simp: filterOrdersByDateRange_def)

lemma processData_active_keeps_store:
  assumes "dateRange s \<in> {''week'', ''month'', ''year''}" and "q < nextRef s"
  shows "heap (processData f now tza s r) q = heap s q"
proof (cases "heap s r = []")
  case True
  then show ?thesis by (simp add: processData_def)
next
  case False
  obtain a b where ab: "filterOrdersByDateRange now tza s r = filterBetween a b s r"
    using filterOrdersByDateRange_active [OF assms(1)] by blast
  obtain r' s1 where fb: "filterBetween a b s r = (r', s1)"
    by (cases "filterBetween a b s r")
  have fr: "heap s1 q = heap s q" "r' = nextRef s"
    using filterBetween_frame [OF fb assms(2)] by simp_all
  have "heap (processData f now tza s r) q =
          ((heap s1)(r' := js_sort (\<lambda>a b. date a - date b) (heap s1 r'))) q"
    using processData_heap [OF False, of now tza r' s1 f] ab fb by simp
  then show ?thesis
    using fr assms(2) by simp
qed

text \<open>
  C1. Filtering, sorting and aggregating are meant to leave the Record Store as it was
  fetched. The orders and reviews pages sort copies, and on the dashboard an active
  date-range filter builds a new array (\<open>processData_active_keeps_store\<close>). With the
  filter inactive (custom range with an unset bound, or an unknown range key)
  \<^verbatim>\<open>filterOrdersByDateRange\<close> returns the store's own array and \<^verbatim>\<open>prepareChartData\<close>
  sorts it in place (\<open>processData_inactive_sorts_store\<close>): below, a store holding the
  orders \<open>b, a\<close> holds \<open>a, b\<close> after the data was processed.
\<close>

theorem record_store_reordered:
  "heap (sampleDashboard ''custom'' [mkOrder ''b'' 1710115200000 50 ''Packing'',
                                     mkOrder ''a'' 1709856000000 100 ''Delivered''])
        (orders (sampleDashboard ''custom'' [mkOrder ''b'' 1710115200000 50 ''Packing'',
                                             mkOrder ''a'' 1709856000000 100 ''Delivered'']))
     = [mkOrder ''b'' 1710115200000 50 ''Packing'', mkOrder ''a'' 1709856000000 100 ''Delivered''] \<and>
   heap (reprocess (enUS 0) 1710460800000 0
           (sampleDashboard ''custom'' [mkOrder ''b'' 1710115200000 50 ''Packing'',
                                        mkOrder ''a'' 1709856000000 100 ''Delivered'']))
        (orders (sampleDashboard ''custom'' [mkOrder ''b'' 1710115200000 50 ''Packing'',
                                             mkOrder ''a'' 1709856000000 100 ''Delivered'']))
     = [mkOrder ''a'' 1709856000000 100 ''Delivered'', mkOrder ''b'' 1710115200000 50 ''Packing'']"
proof -
  let ?s = "sampleDashboard ''custom'' [mkOrder ''b'' 1710115200000 50 ''Packing'',
                                        mkOrder ''a'' 1709856000000 100 ''Delivered'']"
  have o: "orders ?s = 0" and h: "heap ?s 0 = [mkOrder ''b'' 1710115200000 50 ''Packing'',
                                        mkOrder ''a'' 1709856000000 100 ''Delivered'']"
    by (simp_all add: sampleDashboard_def initialDashboard_def)
  have ne: "heap ?s 0 \<noteq> []" unfolding h by simp
  have r: "dateRange ?s \<notin> {''week'', ''month'', ''year''}"
    by (simp add: sampleDashboard_def initialDashboard_def)
  have c: "dateRange ?s = ''custom'' \<longrightarrow> startDate ?s = Empty \<or> endDate ?s = Empty"
    by (simp add: sampleDashboard_def initialDashboard_def)
  have "heap (processData (enUS 0) 1710460800000 0 ?s 0) 0 = js_sort (\<lambda>a b. date a - date b) (heap ?s 0)"
    using ne r c by (rule processData_inactive_sorts_store)
  also have "\<dots> = [mkOrder ''a'' 1709856000000 100 ''Delivered'', mkOrder ''b'' 1710115200000 50 ''Packing'']"
    unfolding h by (simp add: js_sort_def mkOrder_def)
  finally have "heap (reprocess (enUS 0) 1710460800000 0 ?s) 0
      = [mkOrder ''a'' 1709856000000 100 ''Delivered'', mkOrder ''b'' 1710115200000 50 ''Packing'']"
    using ne by (simp add: reprocess_def o)
  then show ?thesis
    using h by (simp add: o)
qed

subsection \<open>Objects as dictionaries\<close>

lemma map_of_obj_set: "map_of (obj_set obj k v) = (map_of obj)(k \<mapsto> v)"
  by (induction obj) (auto simp: fun_eq_iff)

lemma keys_obj_set:
  "map fst (obj_set obj k v) = (if k \<in> set (map fst obj) then map fst obj else map fst obj @ [k])"
  by (induction obj) auto

lemma ownProperties_plain:
  "\<forall>p\<in>set obj. \<not> isArrayIndex (fst p) \<Longrightarrow> ownProperties obj = obj"
  by (simp add: ownProperties_def filter_empty_conv)

lemma length_ownProperties: "length (ownProperties obj) = length obj"
  by (simp add: ownProperties_def sum_length_filter_compl)

lemma values_by_key:
  "distinct (map fst obj) \<Longrightarrow> map snd obj = map (\<lambda>k. the (map_of obj k)) (map fst obj)"
proof (induction obj)
  case Nil
  show ?case by simp
next
  case (Cons p ps)
  have d: "distinct (map fst ps)" and n: "fst p \<notin> set (map fst ps)"
    using Cons.prems by simp_all
  have "map (\<lambda>k. the (map_of (p # ps) k)) (map fst ps) = map (\<lambda>k. the (map_of ps k)) (map fst ps)"
  proof (rule map_cong [OF refl])
    fix k assume "k \<in> set (map fst ps)"
    then have "k \<noteq> fst p" using n by blast
    then show "the (map_of (p # ps) k) = the (map_of ps k)"
      by (cases p) simp
  qed
  then have "map (\<lambda>k. the (map_of (p # ps) k)) (map fst ps) = map snd ps"
    using Cons.IH [OF d] by simp
  then show ?case
    by (cases p) simp
qed












subsection \<open>Status summaries and scalar statistics\<close>


lemma sample_store:
  "heap (sampleDashboard rng xs) 0 = xs \<and> orders (sampleDashboard rng xs) = 0 \<and>
   dateRange (sampleDashboard rng xs) = rng \<and> nextRef (sampleDashboard rng xs) = 1"
  by (simp add: sampleDashboard_def initialDashboard_def)






section \<open>Stability and reversal of the sorts\<close>

lemma consistent_total: "consistent c \<Longrightarrow> c a b \<le> 0 \<or> c b a \<le> 0"
  unfolding consistent_def by (metis less_le_not_le linorder_le_cases)

lemma consistent_trans: "consistent c \<Longrightarrow> c a b \<le> 0 \<Longrightarrow> c b d \<le> 0 \<Longrightarrow> c a d \<le> 0"
  unfolding consistent_def by blast

lemma consistent_zero_sym: "consistent c \<Longrightarrow> c a b = 0 \<Longrightarrow> c b a = 0"
  unfolding consistent_def by (metis less_irrefl linorder_neqE_linordered_idom)

lemma consistent_refl: "consistent c \<Longrightarrow> c a a = 0"
  unfolding consistent_def by (metis less_asym linorder_neqE_linordered_idom)

lemma consistent_both_le: "consistent c \<Longrightarrow> c a b \<le> 0 \<Longrightarrow> c b a \<le> 0 \<Longrightarrow> c a b = 0"
  unfolding consistent_def by (metis less_le_not_le order_le_less)

lemma set_insort_cmp: "set (insort_cmp c x ys) = insert x (set ys)"
  using mset_insort_cmp [of c x ys] by (metis set_mset_add_mset_insert set_mset_mset)

lemma sorted_insort_cmp:
  assumes "consistent c"
  shows "sorted_wrt (\<lambda>a b. c a b \<le> 0) ys \<Longrightarrow> sorted_wrt (\<lambda>a b. c a b \<le> 0) (insort_cmp c x ys)"
proof (induction ys)
  case Nil
  show ?case by simp
next
  case (Cons y ys)
  show ?case
  proof (cases "c x y \<le> 0")
    case True
    have "\<forall>z\<in>set ys. c x z \<le> 0"
      using Cons.prems True consistent_trans [OF assms] by auto
    then show ?thesis
      using True Cons.prems by simp
  next
    case False
    then have "c y x \<le> 0"
      using consistent_total [OF assms, of x y] by simp
    then show ?thesis
      using False Cons by (simp add: set_insort_cmp)
  qed
qed

lemma sorted_js_sort: "consistent c \<Longrightarrow> sorted_wrt (\<lambda>a b. c a b \<le> 0) (js_sort c xs)"
  by (induction xs) (simp_all add: js_sort_def sorted_insort_cmp)

lemma filter_insort_cmp_drop: "\<not> P x \<Longrightarrow> filter P (insort_cmp c x ys) = filter P ys"
  by (induction ys) simp_all

lemma filter_insort_cmp_tie:
  assumes "consistent c" and "c a x = 0"
  shows "filter (\<lambda>y. c a y = 0) (insort_cmp c x ys) = x # filter (\<lambda>y. c a y = 0) ys"
proof (induction ys)
  case Nil
  show ?case using assms(2) by simp
next
  case (Cons y ys)
  show ?case
  proof (cases "c x y \<le> 0")
    case True
    then show ?thesis using assms(2) by simp
  next
    case False
    have "c a y \<noteq> 0"
    proof
      assume "c a y = 0"
      moreover have "c x a = 0"
        using assms by (rule consistent_zero_sym)
      ultimately have "c x y \<le> 0"
        using consistent_trans [OF assms(1), of x a y] by simp
      then show False using False by simp
    qed
    then show ?thesis
      using False Cons by simp
  qed
qed

lemma js_sort_stable:
  assumes "consistent c"
  shows "filter (\<lambda>y. c a y = 0) (js_sort c xs) = filter (\<lambda>y. c a y = 0) xs"
proof (induction xs)
  case Nil
  show ?case by (simp add: js_sort_def)
next
  case (Cons x xs)
  have unfold: "js_sort c (x # xs) = insort_cmp c x (js_sort c xs)"
    by (simp add: js_sort_def)
  show ?case
  proof (cases "c a x = 0")
    case True
    then show ?thesis
      unfolding unfold filter_insort_cmp_tie [OF assms True] using Cons by simp
  next
    case False
    then show ?thesis
      unfolding unfold using Cons by (simp add: filter_insort_cmp_drop)
  qed
qed

lemma stable_sorted_unique:
  assumes "consistent c"
  shows "sorted_wrt (\<lambda>a b. c a b \<le> 0) ys \<Longrightarrow> sorted_wrt (\<lambda>a b. c a b \<le> 0) zs \<Longrightarrow>
         (\<And>a. filter (\<lambda>y. c a y = 0) ys = filter (\<lambda>y. c a y = 0) zs) \<Longrightarrow> ys = zs"
proof (induction ys arbitrary: zs)
  case Nil
  show ?case
  proof (cases zs)
    case Nil
    then show ?thesis by simp
  next
    case (Cons z zs')
    have "filter (\<lambda>y. c z y = 0) [] = filter (\<lambda>y. c z y = 0) zs"
      using Nil.prems(3) .
    then show ?thesis
      using Cons consistent_refl [OF assms, of z] by simp
  qed
next
  case (Cons y ys)
  have yy: "c y y = 0" by (rule consistent_refl [OF assms])
  obtain z zs' where zs: "zs = z # zs'"
  proof (cases zs)
    case Nil
    have "filter (\<lambda>u. c y u = 0) (y # ys) = filter (\<lambda>u. c y u = 0) zs"
      using Cons.prems(3) .
    then show ?thesis using Nil yy by simp
  next
    case (Cons z zs')
    then show ?thesis using that by blast
  qed
  have zz: "c z z = 0" by (rule consistent_refl [OF assms])
  have fy: "filter (\<lambda>u. c y u = 0) (z # zs') = y # filter (\<lambda>u. c y u = 0) ys"
    using Cons.prems(3) [of y] yy zs by simp
  have fz: "filter (\<lambda>u. c z u = 0) (y # ys) = z # filter (\<lambda>u. c z u = 0) zs'"
    using Cons.prems(3) [of z] zz zs by simp
  have "y = z"
  proof (rule ccontr)
    assume ne: "y \<noteq> z"
    have nyz: "c y z \<noteq> 0"
    proof
      assume "c y z = 0"
      then show False using fy ne by simp
    qed
    have "y \<in> set (filter (\<lambda>u. c y u = 0) (z # zs'))"
      unfolding fy by simp
    then have "y \<in> set (z # zs')"
      by (metis filter_is_subset subsetD)
    then have "y \<in> set zs'"
      using ne by simp
    then have zy: "c z y \<le> 0"
      using Cons.prems(2) zs by auto
    have "z \<in> set (filter (\<lambda>u. c z u = 0) (y # ys))"
      unfolding fz by simp
    then have "z \<in> set (y # ys)"
      by (metis filter_is_subset subsetD)
    then have "z \<in> set ys"
      using ne by simp
    then have "c y z \<le> 0"
      using Cons.prems(1) by auto
    then have "c y z = 0"
      using zy by (rule consistent_both_le [OF assms])
    then show False using nyz by simp
  qed
  have tails: "filter (\<lambda>u. c a u = 0) ys = filter (\<lambda>u. c a u = 0) zs'" for a
    using Cons.prems(3) [of a] zs \<open>y = z\<close> by (cases "c a z = 0") simp_all
  have "ys = zs'"
    using Cons.prems(1,2) zs tails by (intro Cons.IH) simp_all
  then show ?case
    using zs \<open>y = z\<close> by simp
qed

lemma js_sort_after_flipped:
  assumes "consistent c"
  shows "js_sort c (js_sort (\<lambda>a b. c b a) xs) = js_sort c xs"
proof -
  have flip: "consistent (\<lambda>a b. c b a)"
    using assms unfolding consistent_def by (metis less_le_not_le linorder_le_cases)
  have zero: "(c b a = 0) = (c a b = 0)" for a b
    using consistent_zero_sym [OF assms] by blast
  have "filter (\<lambda>y. c a y = 0) (js_sort c (js_sort (\<lambda>a b. c b a) xs)) =
        filter (\<lambda>y. c a y = 0) (js_sort c xs)" for a
  proof -
    have "filter (\<lambda>y. c a y = 0) (js_sort c (js_sort (\<lambda>a b. c b a) xs))
            = filter (\<lambda>y. c a y = 0) (js_sort (\<lambda>a b. c b a) xs)"
      by (rule js_sort_stable [OF assms])
    also have "\<dots> = filter (\<lambda>y. c y a = 0) (js_sort (\<lambda>a b. c b a) xs)"
      by (simp add: zero)
    also have "\<dots> = filter (\<lambda>y. c y a = 0) xs"
      by (rule js_sort_stable [OF flip])
    also have "\<dots> = filter (\<lambda>y. c a y = 0) xs"
      by (simp add: zero)
    also have "\<dots> = filter (\<lambda>y. c a y = 0) (js_sort c xs)"
      by (rule js_sort_stable [OF assms, symmetric])
    finally show ?thesis .
  qed
  then show ?thesis
    by (rule stable_sorted_unique [OF assms sorted_js_sort [OF assms] sorted_js_sort [OF assms]])
qed

lemma consistent_int_key: "consistent (\<lambda>a b. (f a :: int) - f b)"
  by (simp add: consistent_def)

lemma consistent_flip: "consistent c \<Longrightarrow> consistent (\<lambda>a b. c b a)"
  unfolding consistent_def by (metis less_le_not_le linorder_le_cases)

lemma consistent_on_key: "consistent c \<Longrightarrow> consistent (\<lambda>a b. c (f a) (f b))"
  unfolding consistent_def by blast

lemma consistent_zero: "consistent (\<lambda>a b. 0)"
  by (simp add: consistent_def)

lemma reviewComparator_asc:
  "reviewComparator lc sortBy ''asc'' =
     (if sortBy = ''date'' then (\<lambda>a b. rdate a - rdate b)
      else if sortBy = ''rating'' then (\<lambda>a b. rating a - rating b)
      else if sortBy = ''productName''
        then (\<lambda>a b. lc (toLowerCase (nameOrEmpty (product a))) (toLowerCase (nameOrEmpty (product b))))
      else if sortBy = ''userName''
        then (\<lambda>a b. lc (toLowerCase (nameOrEmpty (user a))) (toLowerCase (nameOrEmpty (user b))))
      else (\<lambda>a b. 0))"
  by (simp add: reviewComparator_def fun_eq_iff Let_def)

lemma reviewComparator_flip:
  "sortOrder \<noteq> ''asc'' \<Longrightarrow>
     reviewComparator lc sortBy sortOrder = (\<lambda>a b. reviewComparator lc sortBy ''asc'' b a)"
  by (simp add: reviewComparator_def fun_eq_iff Let_def)

lemma consistent_reviewComparator:
  assumes "consistent lc"
  shows "consistent (reviewComparator lc sortBy sortOrder)"
proof -
  have asc: "consistent (reviewComparator lc sortBy ''asc'')"
    unfolding reviewComparator_asc
    by (simp add: consistent_int_key consistent_zero consistent_on_key [OF assms])
  show ?thesis
  proof (cases "sortOrder = ''asc''")
    case True
    show ?thesis unfolding True by (rule asc)
  next
    case False
    show ?thesis
      unfolding reviewComparator_flip [OF False] using asc by (rule consistent_flip)
  qed
qed

lemma dateComparator_flip:
  "sortOrder \<noteq> ''asc'' \<Longrightarrow> dateComparator sortOrder = (\<lambda>a b. dateComparator ''asc'' b a)"
  by (simp add: dateComparator_def fun_eq_iff)

lemma consistent_dateComparator: "consistent (dateComparator sortOrder)"
  by (simp add: consistent_def dateComparator_def)

lemma consistent_codeUnitCompare: "consistent codeUnitCompare"
  by (auto simp: consistent_def codeUnitCompare_def)

text \<open>
  C8. Sorting is stable and reversing the direction is exact. For a consistent
  \<^verbatim>\<open>localeCompare\<close>, every sort key (\<^verbatim>\<open>date\<close>, \<^verbatim>\<open>rating\<close>, \<^verbatim>\<open>productName\<close>, \<^verbatim>\<open>userName\<close>)
  and either direction, the reviews that tie with any given review under the comparator
  keep their original relative order, and the result is an ordered rearrangement of the
  input. Sorting ascending what was sorted descending gives the ascending sort of the
  original list (for every list, hence when all key values are distinct). The same
  holds for the date sort of the orders page, where toggling a descending list gives
  the ascending one.
\<close>

theorem sort_stable_and_reversible:
  assumes "consistent localeCompare"
  shows "filter (\<lambda>y. reviewComparator localeCompare sortBy sortOrder a y = 0)
           (sortedReviews localeCompare sortBy sortOrder xs)
         = filter (\<lambda>y. reviewComparator localeCompare sortBy sortOrder a y = 0) xs \<and>
       sorted_wrt (\<lambda>a b. reviewComparator localeCompare sortBy sortOrder a b \<le> 0)
           (sortedReviews localeCompare sortBy sortOrder xs) \<and>
       mset (sortedReviews localeCompare sortBy sortOrder xs) = mset xs \<and>
       sortedReviews localeCompare sortBy ''asc'' (sortedReviews localeCompare sortBy ''desc'' xs)
         = sortedReviews localeCompare sortBy ''asc'' xs \<and>
       filter (\<lambda>y. dateComparator orderSort b y = 0) (js_sort (dateComparator orderSort) os)
         = filter (\<lambda>y. dateComparator orderSort b y = 0) os \<and>
       sorted_wrt (\<lambda>a b. dateComparator orderSort a b \<le> 0) (js_sort (dateComparator orderSort) os) \<and>
       toggleSortOrder ''desc'' (js_sort (dateComparator ''desc'') os)
         = (''asc'', js_sort (dateComparator ''asc'') os)"
proof -
  note cr = consistent_reviewComparator [OF assms]
  have rev_flip: "reviewComparator localeCompare sortBy ''desc''
                    = (\<lambda>a b. reviewComparator localeCompare sortBy ''asc'' b a)"
    by (rule reviewComparator_flip) simp
  have ord_flip: "dateComparator ''desc'' = (\<lambda>a b. dateComparator ''asc'' b a)"
    by (rule dateComparator_flip) simp
  have 1: "filter (\<lambda>y. reviewComparator localeCompare sortBy sortOrder a y = 0)
             (sortedReviews localeCompare sortBy sortOrder xs)
           = filter (\<lambda>y. reviewComparator localeCompare sortBy sortOrder a y = 0) xs"
    unfolding sortedReviews_def by (rule js_sort_stable [OF cr])
  have 2: "sorted_wrt (\<lambda>a b. reviewComparator localeCompare sortBy sortOrder a b \<le> 0)
             (sortedReviews localeCompare sortBy sortOrder xs)"
    unfolding sortedReviews_def by (rule sorted_js_sort [OF cr])
  have 3: "mset (sortedReviews localeCompare sortBy sortOrder xs) = mset xs"
    unfolding sortedReviews_def by (rule mset_js_sort)
  have 4: "sortedReviews localeCompare sortBy ''asc'' (sortedReviews localeCompare sortBy ''desc'' xs)
             = sortedReviews localeCompare sortBy ''asc'' xs"
    unfolding sortedReviews_def rev_flip by (rule js_sort_after_flipped [OF cr])
  have 5: "filter (\<lambda>y. dateComparator orderSort b y = 0) (js_sort (dateComparator orderSort) os)
             = filter (\<lambda>y. dateComparator orderSort b y = 0) os"
    by (rule js_sort_stable [OF consistent_dateComparator])
  have 6: "sorted_wrt (\<lambda>a b. dateComparator orderSort a b \<le> 0) (js_sort (dateComparator orderSort) os)"
    by (rule sorted_js_sort [OF consistent_dateComparator])
  have "js_sort (dateComparator ''asc'') (js_sort (dateComparator ''desc'') os)
          = js_sort (dateComparator ''asc'') os"
    unfolding ord_flip by (rule js_sort_after_flipped [OF consistent_dateComparator])
  then have 7: "toggleSortOrder ''desc'' (js_sort (dateComparator ''desc'') os)
                  = (''asc'', js_sort (dateComparator ''asc'') os)"
    by (simp add: toggleSortOrder_def Let_def)
  from 1 2 3 4 5 6 7 show ?thesis by blast
qed

theorem sort_stable_and_reversible_witness:
  "consistent codeUnitCompare \<and>
   sortedReviews codeUnitCompare ''rating'' ''desc''
     [mkReview ''1'' 10 2 (Some ''fine'') (Some ''Ann'') (Some ''Mug''),
      mkReview ''2'' 20 5 (Some ''great'') (Some ''Bob'') (Some ''Cap''),
      mkReview ''3'' 30 2 (Some ''meh'') None (Some ''Bag'')]
   = [mkReview ''2'' 20 5 (Some ''great'') (Some ''Bob'') (Some ''Cap''),
      mkReview ''1'' 10 2 (Some ''fine'') (Some ''Ann'') (Some ''Mug''),
      mkReview ''3'' 30 2 (Some ''meh'') None (Some ''Bag'')] \<and>
   sortedReviews codeUnitCompare ''rating'' ''asc''
     (sortedReviews codeUnitCompare ''rating'' ''desc''
        [mkReview ''1'' 10 2 (Some ''fine'') (Some ''Ann'') (Some ''Mug''),
         mkReview ''2'' 20 5 (Some ''great'') (Some ''Bob'') (Some ''Cap''),
         mkReview ''3'' 30 2 (Some ''meh'') None (Some ''Bag'')])
   = [mkReview ''1'' 10 2 (Some ''fine'') (Some ''Ann'') (Some ''Mug''),
      mkReview ''3'' 30 2 (Some ''meh'') None (Some ''Bag''),
      mkReview ''2'' 20 5 (Some ''great'') (Some ''Bob'') (Some ''Cap'')] \<and>
   sortedReviews codeUnitCompare ''userName'' ''asc''
     [mkReview ''1'' 10 2 (Some ''fine'') (Some ''Ann'') (Some ''Mug''),
      mkReview ''2'' 20 5 (Some ''great'') (Some ''Bob'') (Some ''Cap''),
      mkReview ''3'' 30 2 (Some ''meh'') None (Some ''Bag'')]
   = [mkReview ''3'' 30 2 (Some ''meh'') None (Some ''Bag''),
      mkReview ''1'' 10 2 (Some ''fine'') (Some ''Ann'') (Some ''Mug''),
      mkReview ''2'' 20 5 (Some ''great'') (Some ''Bob'') (Some ''Cap'')]"
proof -
  have c: "consistent codeUnitCompare"
    by (rule consistent_codeUnitCompare)
  have asc: "sortedReviews codeUnitCompare ''rating'' ''asc''
     [mkReview ''1'' 10 2 (Some ''fine'') (Some ''Ann'') (Some ''Mug''),
      mkReview ''2'' 20 5 (Some ''great'') (Some ''Bob'') (Some ''Cap''),
      mkReview ''3'' 30 2 (Some ''meh'') None (Some ''Bag'')]
   = [mkReview ''1'' 10 2 (Some ''fine'') (Some ''Ann'') (Some ''Mug''),
      mkReview ''3'' 30 2 (Some ''meh'') None (Some ''Bag''),
      mkReview ''2'' 20 5 (Some ''great'') (Some ''Bob'') (Some ''Cap'')]"
    by (simp add: sortedReviews_def js_sort_def reviewComparator_def mkReview_def)
  have desc: "sortedReviews codeUnitCompare ''rating'' ''desc''
     [mkReview ''1'' 10 2 (Some ''fine'') (Some ''Ann'') (Some ''Mug''),
      mkReview ''2'' 20 5 (Some ''great'') (Some ''Bob'') (Some ''Cap''),
      mkReview ''3'' 30 2 (Some ''meh'') None (Some ''Bag'')]
   = [mkReview ''2'' 20 5 (Some ''great'') (Some ''Bob'') (Some ''Cap''),
      mkReview ''1'' 10 2 (Some ''fine'') (Some ''Ann'') (Some ''Mug''),
      mkReview ''3'' 30 2 (Some ''meh'') None (Some ''Bag'')]"
    by (simp add: sortedReviews_def js_sort_def reviewComparator_def mkReview_def)
  have name: "sortedReviews codeUnitCompare ''userName'' ''asc''
     [mkReview ''1'' 10 2 (Some ''fine'') (Some ''Ann'') (Some ''Mug''),
      mkReview ''2'' 20 5 (Some ''great'') (Some ''Bob'') (Some ''Cap''),
      mkReview ''3'' 30 2 (Some ''meh'') None (Some ''Bag'')]
   = [mkReview ''3'' 30 2 (Some ''meh'') None (Some ''Bag''),
      mkReview ''1'' 10 2 (Some ''fine'') (Some ''Ann'') (Some ''Mug''),
      mkReview ''2'' 20 5 (Some ''great'') (Some ''Bob'') (Some ''Cap'')]"
    by (simp add: sortedReviews_def js_sort_def reviewComparator_def mkReview_def
          nameOrEmpty_def optName_def toLowerCase_def lowerChar_def codeUnitCompare_def)
  from sort_stable_and_reversible [OF c, of "''rating''" "''desc''" _
         "[mkReview ''1'' 10 2 (Some ''fine'') (Some ''Ann'') (Some ''Mug''),
           mkReview ''2'' 20 5 (Some ''great'') (Some ''Bob'') (Some ''Cap''),
           mkReview ''3'' 30 2 (Some ''meh'') None (Some ''Bag'')]"]
  have "sortedReviews codeUnitCompare ''rating'' ''asc''
     (sortedReviews codeUnitCompare ''rating'' ''desc''
        [mkReview ''1'' 10 2 (Some ''fine'') (Some ''Ann'') (Some ''Mug''),
         mkReview ''2'' 20 5 (Some ''great'') (Some ''Bob'') (Some ''Cap''),
         mkReview ''3'' 30 2 (Some ''meh'') None (Some ''Bag'')])
     = sortedReviews codeUnitCompare ''rating'' ''asc''
        [mkReview ''1'' 10 2 (Some ''fine'') (Some ''Ann'') (Some ''Mug''),
         mkReview ''2'' 20 5 (Some ''great'') (Some ''Bob'') (Some ''Cap''),
         mkReview ''3'' 30 2 (Some ''meh'') None (Some ''Bag'')]"
    by blast
  then show ?thesis
    using c asc desc name by simp
qed

section \<open>Review search\<close>

lemma includes_str_sublist: "includes_str s t = sublist t s"
  by (induction s) (simp_all add: sublist_Cons_right)

lemma includes_str_empty: "includes_str s []"
  by (simp add: includes_str_sublist)

lemma includes_str_in_empty: "includes_str [] t = (t = [])"
  by simp

lemma filterE_total:
  "\<forall>x\<in>set xs. p x = Inr (q x) \<Longrightarrow> filterE p xs = Inr (filter q xs)"
  by (induction xs) simp_all

lemma nameMatches_or_comment:
  "(nameMatches x sl \<or> includes_str c sl) =
     (includes_str (toLowerCase (nameOrEmpty x)) sl \<or> includes_str c sl)"
proof (cases "nameOrEmpty x = []")
  case True
  then have "\<not> nameMatches x sl"
    by (auto simp: nameMatches_def nameOrEmpty_def split: option.splits)
  moreover have "includes_str (toLowerCase (nameOrEmpty x)) sl = (sl = [])"
    by (simp add: True toLowerCase_def)
  ultimately show ?thesis
    using includes_str_empty [of c] by auto
next
  case False
  then have "nameMatches x sl = includes_str (toLowerCase (nameOrEmpty x)) sl"
    by (auto simp: nameMatches_def nameOrEmpty_def split: option.splits)
  then show ?thesis by simp
qed

lemma reviewMatches_with_comment:
  assumes "comment review = Some c"
  shows "reviewMatches searchTerm review =
     Inr (includes_str (toLowerCase (nameOrEmpty (user review))) (toLowerCase searchTerm) \<or>
          includes_str (toLowerCase (nameOrEmpty (product review))) (toLowerCase searchTerm) \<or>
          includes_str (toLowerCase c) (toLowerCase searchTerm))"
proof -
  let ?sl = "toLowerCase searchTerm"
  have "reviewMatches searchTerm review =
          Inr (nameMatches (user review) ?sl \<or> nameMatches (product review) ?sl \<or>
               includes_str (toLowerCase c) ?sl)"
    using assms by (simp add: reviewMatches_def Let_def)
  also have "(nameMatches (user review) ?sl \<or> nameMatches (product review) ?sl \<or>
               includes_str (toLowerCase c) ?sl) =
             (includes_str (toLowerCase (nameOrEmpty (user review))) ?sl \<or>
              includes_str (toLowerCase (nameOrEmpty (product review))) ?sl \<or>
              includes_str (toLowerCase c) ?sl)"
    using nameMatches_or_comment [of "user review" ?sl "toLowerCase c"]
          nameMatches_or_comment [of "product review" ?sl "toLowerCase c"]
    by blast
  finally show ?thesis .
qed

lemma reviewMatches_without_comment:
  "comment review = None \<Longrightarrow>
     reviewMatches searchTerm review =
       (if nameMatches (user review) (toLowerCase searchTerm) \<or>
           nameMatches (product review) (toLowerCase searchTerm)
        then Inr True else Inl TypeError)"
  by (simp add: reviewMatches_def Let_def)

lemma lower_examples:
  "toLowerCase ''MUG'' = ''mug'' \<and> toLowerCase ''Mug'' = ''mug'' \<and> toLowerCase ''Ann'' = ''ann'' \<and>
   toLowerCase ''fine'' = ''fine'' \<and> toLowerCase ''Bag'' = ''bag'' \<and> toLowerCase ''my mug'' = ''my mug'' \<and>
   toLowerCase [] = []"
  by (simp add: toLowerCase_def lowerChar_def)

text \<open>
  C4 (as amended). For every search text and every review list in which each review has
  a comment, the search filter returns a list (it does not throw): a review whose user
  name or product name is missing is treated as having the empty string there, and a
  review is kept iff the lower-cased user name, product name or comment contains the
  lower-cased search text.
\<close>

theorem review_search_total:
  assumes "\<forall>review\<in>set reviews. comment review \<noteq> None"
  shows "filteredReviews searchTerm reviews =
     Inr (filter (\<lambda>review.
            includes_str (toLowerCase (nameOrEmpty (user review))) (toLowerCase searchTerm) \<or>
            includes_str (toLowerCase (nameOrEmpty (product review))) (toLowerCase searchTerm) \<or>
            includes_str (toLowerCase (the (comment review))) (toLowerCase searchTerm))
          reviews)"
  unfolding filteredReviews_def
proof (rule filterE_total, rule ballI)
  fix review assume "review \<in> set reviews"
  then obtain c where c: "comment review = Some c"
    using assms by auto
  show "reviewMatches searchTerm review =
     Inr (includes_str (toLowerCase (nameOrEmpty (user review))) (toLowerCase searchTerm) \<or>
          includes_str (toLowerCase (nameOrEmpty (product review))) (toLowerCase searchTerm) \<or>
          includes_str (toLowerCase (the (comment review))) (toLowerCase searchTerm))"
    using reviewMatches_with_comment [OF c] c by simp
qed

theorem review_search_total_witness:
  "filteredReviews ''MUG''
     [mkReview ''1'' 10 2 (Some ''fine'') (Some ''Ann'') (Some ''Mug''),
      (mkReview ''2'' 20 5 (Some ''my mug'') None None)\<lparr>user := None\<rparr>,
      mkReview ''3'' 30 2 (Some ''fine'') None (Some ''Bag'')]
   = Inr [mkReview ''1'' 10 2 (Some ''fine'') (Some ''Ann'') (Some ''Mug''),
          (mkReview ''2'' 20 5 (Some ''my mug'') None None)\<lparr>user := None\<rparr>]"
proof -
  have h: "\<forall>review\<in>set [mkReview ''1'' 10 2 (Some ''fine'') (Some ''Ann'') (Some ''Mug''),
      (mkReview ''2'' 20 5 (Some ''my mug'') None None)\<lparr>user := None\<rparr>,
      mkReview ''3'' 30 2 (Some ''fine'') None (Some ''Bag'')]. comment review \<noteq> None"
    by (simp add: mkReview_def)
  show ?thesis
    unfolding review_search_total [OF h]
    by (simp add: mkReview_def nameOrEmpty_def optName_def lower_examples)
qed

text \<open>
  The claim as written fails for a missing comment: the comment is read without a guard,
  so a review without one makes the filter throw unless one of the names matched
  (\<open>reviewMatches_without_comment\<close>).
\<close>

theorem missing_comment_counterexample:
  "filteredReviews ''mug'' [mkReview ''4'' 40 3 None (Some ''Ann'') (Some ''Bag'')] = Inl TypeError"
  by (simp add: filteredReviews_def reviewMatches_def nameMatches_def optName_def mkReview_def
        lower_examples [simplified] toLowerCase_def lowerChar_def)

section \<open>Chart buckets\<close>

lemma firstSeen_snoc:
  "firstSeen (ys @ [y]) = (if y \<in> set ys then firstSeen ys else firstSeen ys @ [y])"
  by (simp add: firstSeen_def)

lemma set_firstSeen: "set (firstSeen xs) = set xs"
  by (simp add: firstSeen_def)

lemma distinct_firstSeen: "distinct (firstSeen xs)"
  by (simp add: firstSeen_def)

lemma groupOrder_fresh:
  assumes "map_of ob (lab (date x)) = None"
  shows "groupOrder lab (ob, ib) x =
           (obj_set (obj_set ob (lab (date x)) 0) (lab (date x)) 1,
            obj_set (obj_set ib (lab (date x)) 0) (lab (date x)) (amount x))"
  using assms by (simp add: groupOrder_def Let_def obj_get_def map_of_obj_set)

lemma groupOrder_seen:
  assumes "map_of ob (lab (date x)) = Some n" and "n \<noteq> 0" and "map_of ib (lab (date x)) = Some a"
  shows "groupOrder lab (ob, ib) x =
           (obj_set ob (lab (date x)) (n + 1), obj_set ib (lab (date x)) (a + amount x))"
  using assms by (simp add: groupOrder_def Let_def obj_get_def)

lemma foldl_groupOrder:
  "map fst (fst (foldl (groupOrder lab) ([], []) xs)) = firstSeen (map (\<lambda>order. lab (date order)) xs) \<and>
   map fst (snd (foldl (groupOrder lab) ([], []) xs)) = firstSeen (map (\<lambda>order. lab (date order)) xs) \<and>
   (\<forall>k. map_of (fst (foldl (groupOrder lab) ([], []) xs)) k =
          (if k \<in> set (map (\<lambda>order. lab (date order)) xs)
           then Some (length (filter (\<lambda>order. lab (date order) = k) xs)) else None)) \<and>
   (\<forall>k. map_of (snd (foldl (groupOrder lab) ([], []) xs)) k =
          (if k \<in> set (map (\<lambda>order. lab (date order)) xs)
           then Some (sum_list (map amount (filter (\<lambda>order. lab (date order) = k) xs))) else None))"
proof (induction xs rule: rev_induct)
  case Nil
  show ?case by (simp add: firstSeen_def)
next
  case (snoc x xs)
  let ?L = "map (\<lambda>order. lab (date order)) xs"
  let ?l = "lab (date x)"
  obtain ob ib where res: "foldl (groupOrder lab) ([], []) xs = (ob, ib)"
    by (cases "foldl (groupOrder lab) ([], []) xs")
  have K1: "map fst ob = firstSeen ?L" and K2: "map fst ib = firstSeen ?L"
    and M1: "\<And>k. map_of ob k = (if k \<in> set ?L
               then Some (length (filter (\<lambda>order. lab (date order) = k) xs)) else None)"
    and M2: "\<And>k. map_of ib k = (if k \<in> set ?L
               then Some (sum_list (map amount (filter (\<lambda>order. lab (date order) = k) xs))) else None)"
    using snoc unfolding res by simp_all
  have step: "foldl (groupOrder lab) ([], []) (xs @ [x]) = groupOrder lab (ob, ib) x"
    by (simp add: res)
  show ?case
  proof (cases "?l \<in> set ?L")
    case True
    define n where "n = length (filter (\<lambda>order. lab (date order) = ?l) xs)"
    define a where "a = sum_list (map amount (filter (\<lambda>order. lab (date order) = ?l) xs))"
    have "filter (\<lambda>order. lab (date order) = ?l) xs \<noteq> []"
      using True by (auto simp: filter_empty_conv)
    then have n0: "n \<noteq> 0" by (simp add: n_def)
    have g1: "map_of ob ?l = Some n" and g2: "map_of ib ?l = Some a"
      using True by (simp_all add: M1 M2 n_def a_def)
    have r: "groupOrder lab (ob, ib) x = (obj_set ob ?l (n + 1), obj_set ib ?l (a + amount x))"
      using g1 n0 g2 by (rule groupOrder_seen)
    have in1: "?l \<in> set (map fst ob)" and in2: "?l \<in> set (map fst ib)"
      using True by (simp_all add: K1 K2 set_firstSeen)
    have k1: "map fst (obj_set ob ?l (n + 1)) = firstSeen (map (\<lambda>order. lab (date order)) (xs @ [x]))"
      using in1 True by (simp add: keys_obj_set K1 firstSeen_snoc)
    have k2: "map fst (obj_set ib ?l (a + amount x)) = firstSeen (map (\<lambda>order. lab (date order)) (xs @ [x]))"
      using in2 True by (simp add: keys_obj_set K2 firstSeen_snoc)
    have m1: "map_of (obj_set ob ?l (n + 1)) k =
          (if k \<in> set (map (\<lambda>order. lab (date order)) (xs @ [x]))
           then Some (length (filter (\<lambda>order. lab (date order) = k) (xs @ [x]))) else None)" for k
      using True by (simp add: map_of_obj_set M1 n_def)
    have m2: "map_of (obj_set ib ?l (a + amount x)) k =
          (if k \<in> set (map (\<lambda>order. lab (date order)) (xs @ [x]))
           then Some (sum_list (map amount (filter (\<lambda>order. lab (date order) = k) (xs @ [x])))) else None)" for k
      using True by (simp add: map_of_obj_set M2 a_def)
    show ?thesis
      unfolding step r using k1 k2 m1 m2 by simp
  next
    case False
    have g1: "map_of ob ?l = None"
      using False by (simp add: M1)
    have r: "groupOrder lab (ob, ib) x =
           (obj_set (obj_set ob ?l 0) ?l 1, obj_set (obj_set ib ?l 0) ?l (amount x))"
      using g1 by (rule groupOrder_fresh)
    have out1: "?l \<notin> set (map fst ob)" and out2: "?l \<notin> set (map fst ib)"
      using False by (simp_all add: K1 K2 set_firstSeen)
    have k1: "map fst (obj_set (obj_set ob ?l 0) ?l 1) = firstSeen (map (\<lambda>order. lab (date order)) (xs @ [x]))"
      using out1 False by (simp add: keys_obj_set K1 firstSeen_snoc)
    have k2: "map fst (obj_set (obj_set ib ?l 0) ?l (amount x)) = firstSeen (map (\<lambda>order. lab (date order)) (xs @ [x]))"
      using out2 False by (simp add: keys_obj_set K2 firstSeen_snoc)
    have "\<forall>order\<in>set xs. lab (date order) \<noteq> ?l"
    proof
      fix order assume "order \<in> set xs"
      then have "lab (date order) \<in> set ?L" by simp
      then show "lab (date order) \<noteq> ?l" using False by metis
    qed
    then have none: "filter (\<lambda>order. lab (date order) = ?l) xs = []"
      by (simp add: filter_empty_conv)
    have m1: "map_of (obj_set (obj_set ob ?l 0) ?l 1) k =
          (if k \<in> set (map (\<lambda>order. lab (date order)) (xs @ [x]))
           then Some (length (filter (\<lambda>order. lab (date order) = k) (xs @ [x]))) else None)" for k
      using False none by (simp add: map_of_obj_set M1)
    have m2: "map_of (obj_set (obj_set ib ?l 0) ?l (amount x)) k =
          (if k \<in> set (map (\<lambda>order. lab (date order)) (xs @ [x]))
           then Some (sum_list (map amount (filter (\<lambda>order. lab (date order) = k) (xs @ [x])))) else None)" for k
      using False none by (simp add: map_of_obj_set M2)
    show ?thesis
      unfolding step r using k1 k2 m1 m2 by simp
  qed
qed

lemma date_sorted_js_sort:
  "sorted_wrt (\<lambda>a b. date a \<le> date b) (js_sort (\<lambda>a b. date a - date b) xs)"
  using sorted_js_sort [OF consistent_int_key, of date xs] by simp

lemma prepareChartData_chart:
  "chartData (prepareChartData f s r) =
     Some \<lparr>labels = Object_keys (fst (foldl (groupOrder (f (dateFormat (dateRange s)))) ([], [])
                                       (js_sort (\<lambda>a b. date a - date b) (heap s r)))),
           orderCounts = Object_values (fst (foldl (groupOrder (f (dateFormat (dateRange s)))) ([], [])
                                       (js_sort (\<lambda>a b. date a - date b) (heap s r)))),
           incomeCounts = Object_values (snd (foldl (groupOrder (f (dateFormat (dateRange s)))) ([], [])
                                       (js_sort (\<lambda>a b. date a - date b) (heap s r))))\<rparr>"
  by (simp add: prepareChartData_def Let_def)

lemma plain_object:
  assumes "\<forall>k\<in>set (map fst obj). \<not> isArrayIndex k" and "distinct (map fst obj)"
  shows "Object_keys obj = map fst obj"
    and "Object_values obj = map (\<lambda>k. the (map_of obj k)) (map fst obj)"
proof -
  have "\<forall>p\<in>set obj. \<not> isArrayIndex (fst p)"
    using assms(1) by simp
  then have own: "ownProperties obj = obj"
    by (rule ownProperties_plain)
  show "Object_keys obj = map fst obj"
    by (simp add: Object_keys_def own)
  show "Object_values obj = map (\<lambda>k. the (map_of obj k)) (map fst obj)"
    using values_by_key [OF assms(2)] by (simp add: Object_values_def own)
qed

lemma weekdayName_cases:
  "weekdayName w \<in> {''Sun'', ''Mon'', ''Tue'', ''Wed'', ''Thu'', ''Fri'', ''Sat''}"
proof -
  have "nat (w mod 7) < length [''Sun'', ''Mon'', ''Tue'', ''Wed'', ''Thu'', ''Fri'', ''Sat'']"
    by simp
  then have "weekdayName w \<in> set [''Sun'', ''Mon'', ''Tue'', ''Wed'', ''Thu'', ''Fri'', ''Sat'']"
    unfolding weekdayName_def by (rule nth_mem)
  then show ?thesis by simp
qed

lemma monthName_cases:
  "monthName m \<in> {''Jan'', ''Feb'', ''Mar'', ''Apr'', ''May'', ''Jun'',
                   ''Jul'', ''Aug'', ''Sep'', ''Oct'', ''Nov'', ''Dec''}"
proof -
  have "nat (m mod 12) < length [''Jan'', ''Feb'', ''Mar'', ''Apr'', ''May'', ''Jun'',
                                 ''Jul'', ''Aug'', ''Sep'', ''Oct'', ''Nov'', ''Dec'']"
    by simp
  then have "monthName m \<in> set [''Jan'', ''Feb'', ''Mar'', ''Apr'', ''May'', ''Jun'',
                                   ''Jul'', ''Aug'', ''Sep'', ''Oct'', ''Nov'', ''Dec'']"
    unfolding monthName_def by (rule nth_mem)
  then show ?thesis by simp
qed

lemma not_index_if_letter_first: "\<not> isDigit c \<Longrightarrow> \<not> isArrayIndex (c # cs)"
  by (simp add: isArrayIndex_def)

lemma enUS_not_index: "\<not> isArrayIndex (enUS tza f t)"
proof (cases f)
  case Weekday
  show ?thesis
    using weekdayName_cases [of "WeekDay (Day (t + tza))"]
    unfolding enUS_def Let_def Weekday date_format.case
    by (elim insertE emptyE) (simp_all add: not_index_if_letter_first isDigit_def)
next
  case MonthDay
  show ?thesis
    using monthName_cases [of "MonthFromDay (Day (t + tza))"]
    unfolding enUS_def Let_def MonthDay date_format.case
    by (elim insertE emptyE) (simp_all add: not_index_if_letter_first isDigit_def)
next
  case MonthYear
  show ?thesis
    using monthName_cases [of "MonthFromDay (Day (t + tza))"]
    unfolding enUS_def Let_def MonthYear date_format.case
    by (elim insertE emptyE) (simp_all add: not_index_if_letter_first isDigit_def)
qed

lemma chart_labels_example:
  "enUS 0 MonthYear 1712016000000 = ''Apr 2024'' \<and>
   enUS 0 MonthYear 1709596800000 = ''Mar 2024'' \<and>
   enUS 0 MonthYear 1710892800000 = ''Mar 2024''"
  by code_simp

lemma chart_labels_plain: "\<not> isArrayIndex ''Apr 2024'' \<and> \<not> isArrayIndex ''Mar 2024''"
  by (simp add: isArrayIndex_def isDigit_def)

text \<open>
  C7. \<^verbatim>\<open>prepareChartData\<close> always publishes chart data whose label sequence, order-count
  series and income series have the same length. It sorts the collection by ascending
  date; when no label is an array index (labels of the \<^verbatim>\<open>en-US\<close> formats start with a
  letter, \<open>enUS_not_index\<close>) the labels are the distinct labels of the sorted orders in the
  order in which they are first seen, hence chronological and not lexicographic, and the
  two series hold, position by position, the number of orders and the summed amount of
  the orders carrying that label.
\<close>

theorem chart_series_aligned:
  "\<exists>cd. chartData (prepareChartData f s r) = Some cd \<and>
      length (labels cd) = length (orderCounts cd) \<and>
      length (orderCounts cd) = length (incomeCounts cd) \<and>
      sorted_wrt (\<lambda>a b. date a \<le> date b) (js_sort (\<lambda>a b. date a - date b) (heap s r)) \<and>
      ((\<forall>order\<in>set (heap s r). \<not> isArrayIndex (f (dateFormat (dateRange s)) (date order))) \<longrightarrow>
         labels cd = firstSeen (map (\<lambda>order. f (dateFormat (dateRange s)) (date order))
                                  (js_sort (\<lambda>a b. date a - date b) (heap s r))) \<and>
         orderCounts cd =
           map (\<lambda>l. length (filter (\<lambda>order. f (dateFormat (dateRange s)) (date order) = l)
                               (js_sort (\<lambda>a b. date a - date b) (heap s r)))) (labels cd) \<and>
         incomeCounts cd =
           map (\<lambda>l. sum_list (map amount (filter (\<lambda>order. f (dateFormat (dateRange s)) (date order) = l)
                               (js_sort (\<lambda>a b. date a - date b) (heap s r))))) (labels cd))"
proof -
  define lab where "lab = f (dateFormat (dateRange s))"
  define srt where "srt = js_sort (\<lambda>a b. date a - date b) (heap s r)"
  define ob where "ob = fst (foldl (groupOrder lab) ([], []) srt)"
  define ib where "ib = snd (foldl (groupOrder lab) ([], []) srt)"
  define cd where "cd = \<lparr>labels = Object_keys ob, orderCounts = Object_values ob,
                          incomeCounts = Object_values ib\<rparr>"
  let ?L = "map (\<lambda>order. lab (date order)) srt"
  have K1: "map fst ob = firstSeen ?L" and K2: "map fst ib = firstSeen ?L"
    and M1: "\<And>k. map_of ob k = (if k \<in> set ?L
               then Some (length (filter (\<lambda>order. lab (date order) = k) srt)) else None)"
    and M2: "\<And>k. map_of ib k = (if k \<in> set ?L
               then Some (sum_list (map amount (filter (\<lambda>order. lab (date order) = k) srt))) else None)"
    using foldl_groupOrder [of lab srt] unfolding ob_def ib_def by simp_all
  have chart: "chartData (prepareChartData f s r) = Some cd"
    unfolding prepareChartData_chart cd_def ob_def ib_def lab_def srt_def by simp
  have "length ob = length ib"
    using K1 K2 by (metis length_map)
  then have len: "length (labels cd) = length (orderCounts cd)"
    "length (orderCounts cd) = length (incomeCounts cd)"
    by (simp_all add: cd_def Object_keys_def Object_values_def length_ownProperties)
  have srtd: "sorted_wrt (\<lambda>a b. date a \<le> date b) srt"
    unfolding srt_def by (rule date_sorted_js_sort)
  have plain: "labels cd = firstSeen ?L \<and>
      orderCounts cd = map (\<lambda>l. length (filter (\<lambda>order. lab (date order) = l) srt)) (labels cd) \<and>
      incomeCounts cd = map (\<lambda>l. sum_list (map amount (filter (\<lambda>order. lab (date order) = l) srt))) (labels cd)"
    if H: "\<forall>order\<in>set (heap s r). \<not> isArrayIndex (lab (date order))"
  proof -
    have "set ?L = (\<lambda>order. lab (date order)) ` set (heap s r)"
      by (simp add: srt_def set_js_sort)
    then have nk: "\<forall>k\<in>set (firstSeen ?L). \<not> isArrayIndex k"
      using H by (simp add: set_firstSeen)
    have p1: "\<forall>k\<in>set (map fst ob). \<not> isArrayIndex k" and p2: "\<forall>k\<in>set (map fst ib). \<not> isArrayIndex k"
      using nk unfolding K1 K2 by simp_all
    have d1: "distinct (map fst ob)" and d2: "distinct (map fst ib)"
      unfolding K1 K2 by (simp_all add: distinct_firstSeen)
    have l: "labels cd = firstSeen ?L"
      by (simp add: cd_def plain_object(1) [OF p1 d1] K1)
    have c: "orderCounts cd = map (\<lambda>k. the (map_of ob k)) (firstSeen ?L)"
      by (simp add: cd_def plain_object(2) [OF p1 d1] K1)
    have i: "incomeCounts cd = map (\<lambda>k. the (map_of ib k)) (firstSeen ?L)"
      by (simp add: cd_def plain_object(2) [OF p2 d2] K2)
    have c': "map (\<lambda>k. the (map_of ob k)) (firstSeen ?L)
                = map (\<lambda>l. length (filter (\<lambda>order. lab (date order) = l) srt)) (firstSeen ?L)"
      by (rule map_cong [OF refl]) (simp add: M1 set_firstSeen)
    have i': "map (\<lambda>k. the (map_of ib k)) (firstSeen ?L)
                = map (\<lambda>l. sum_list (map amount (filter (\<lambda>order. lab (date order) = l) srt))) (firstSeen ?L)"
      by (rule map_cong [OF refl]) (simp add: M2 set_firstSeen)
    show ?thesis
      unfolding c i c' i' l by simp
  qed
  show ?thesis
    using chart len srtd plain unfolding lab_def srt_def by blast
qed

theorem chart_series_aligned_witness:
  "map_option labels (chartData (prepareChartData (enUS 0)
      (sampleDashboard ''year'' [mkOrder ''c'' 1712016000000 30 ''Packing'',
                                 mkOrder ''a'' 1709596800000 10 ''Delivered'',
                                 mkOrder ''b'' 1710892800000 20 ''Shipped'']) 0))
     = Some [''Mar 2024'', ''Apr 2024''] \<and>
   map_option orderCounts (chartData (prepareChartData (enUS 0)
      (sampleDashboard ''year'' [mkOrder ''c'' 1712016000000 30 ''Packing'',
                                 mkOrder ''a'' 1709596800000 10 ''Delivered'',
                                 mkOrder ''b'' 1710892800000 20 ''Shipped'']) 0))
     = Some [2, 1] \<and>
   map_option incomeCounts (chartData (prepareChartData (enUS 0)
      (sampleDashboard ''year'' [mkOrder ''c'' 1712016000000 30 ''Packing'',
                                 mkOrder ''a'' 1709596800000 10 ''Delivered'',
                                 mkOrder ''b'' 1710892800000 20 ''Shipped'']) 0))
     = Some [30, 30] \<and>
   ''Apr 2024'' < ''Mar 2024''"
proof -
  let ?xs = "[mkOrder ''c'' 1712016000000 30 ''Packing'',
              mkOrder ''a'' 1709596800000 10 ''Delivered'',
              mkOrder ''b'' 1710892800000 20 ''Shipped'']"
  let ?s = "sampleDashboard ''year'' ?xs"
  have hp: "heap ?s 0 = ?xs" and dr: "dateFormat (dateRange ?s) = MonthYear"
    by (simp_all add: sample_store dateFormat_def)
  have srt: "js_sort (\<lambda>a b. date a - date b) ?xs =
       [mkOrder ''a'' 1709596800000 10 ''Delivered'',
        mkOrder ''b'' 1710892800000 20 ''Shipped'',
        mkOrder ''c'' 1712016000000 30 ''Packing'']"
    by (simp add: js_sort_def mkOrder_def)
  have dates: "date (mkOrder ''c'' 1712016000000 30 ''Packing'') = 1712016000000"
    "date (mkOrder ''a'' 1709596800000 10 ''Delivered'') = 1709596800000"
    "date (mkOrder ''b'' 1710892800000 20 ''Shipped'') = 1710892800000"
    "amount (mkOrder ''c'' 1712016000000 30 ''Packing'') = 30"
    "amount (mkOrder ''a'' 1709596800000 10 ''Delivered'') = 10"
    "amount (mkOrder ''b'' 1710892800000 20 ''Shipped'') = 20"
    by (simp_all add: mkOrder_def)
  have H: "\<forall>order\<in>set (heap ?s 0). \<not> isArrayIndex (enUS 0 (dateFormat (dateRange ?s)) (date order))"
    unfolding hp dr by (simp add: dates chart_labels_example chart_labels_plain)
  from chart_series_aligned [of "enUS 0" ?s 0] H
  obtain cd where cd: "chartData (prepareChartData (enUS 0) ?s 0) = Some cd"
    and l: "labels cd = firstSeen (map (\<lambda>order. enUS 0 (dateFormat (dateRange ?s)) (date order))
                                  (js_sort (\<lambda>a b. date a - date b) (heap ?s 0)))"
    and c: "orderCounts cd =
           map (\<lambda>l. length (filter (\<lambda>order. enUS 0 (dateFormat (dateRange ?s)) (date order) = l)
                               (js_sort (\<lambda>a b. date a - date b) (heap ?s 0)))) (labels cd)"
    and i: "incomeCounts cd =
           map (\<lambda>l. sum_list (map amount (filter (\<lambda>order. enUS 0 (dateFormat (dateRange ?s)) (date order) = l)
                               (js_sort (\<lambda>a b. date a - date b) (heap ?s 0))))) (labels cd)"
    by blast
  have l': "labels cd = [''Mar 2024'', ''Apr 2024'']"
    unfolding l hp dr srt by (simp add: dates chart_labels_example firstSeen_def)
  have c': "orderCounts cd = [2, 1]"
    unfolding c l' hp dr srt by (simp add: dates chart_labels_example)
  have i': "incomeCounts cd = [30, 30]"
    unfolding i l' hp dr srt by (simp add: dates chart_labels_example)
  show ?thesis
    unfolding cd using l' c' i' by simp
qed

end
